theory Spec2Isabelle
  imports Complex_Main
begin

section \<open>The alpha governor (alpha_governor/server/main.py)\<close>

text \<open>
  The governor re-reads a csv file of closed trades on every tick, buckets the last
  \<open>WINDOW\<close> rows by symbol, and runs a per-symbol hysteresis gate that emits
  \<open>DISABLE_ENGINE\<close> and \<open>ENABLE_ENGINE\<close> commands. Python ints are \<open>int\<close>.

  One idealisation is made: Python floats are modelled as reals. The PnL values are finite
  numbers (a text that \<open>float\<close> reads as \<open>nan\<close> or \<open>inf\<close> is outside the model, and
  so is the error that \<open>statistics.pstdev\<close> raises on such values), and the rounding of
  float arithmetic is left out (the \<open>statistics\<close> module itself computes mean and
  variance exactly, on fractions). The values that \<open>governor.yaml\<close> holds are taken to be
  numbers.
  What is proved below about a body of the second loop of \<open>analyze\<close> that raises is
  proved for whatever error it raises.
\<close>

subsection \<open>Data\<close>

text \<open>
  A csv cell as \<open>csv.DictReader\<close> hands it over: a text, or Python's \<open>None\<close> where
  the line was shorter than the header. A row is the dict of one line. The symbol of a row
  is its \<open>symbol\<close> cell, whatever it holds.
\<close>

type_synonym cell = "string option"
type_synonym row = "string \<rightharpoonup> cell"
type_synonym symbol = cell

datatype error = KeyError | TypeError | ValueError | OSError

text \<open>
  The constants read from \<open>governor.yaml\<close> at import time, and the two entries of
  \<open>CONFIG\<close> that the source looks up at each ENABLE only, \<open>min_weight\<close> and
  \<open>max_weight\<close>: \<open>None\<close> where \<open>governor.yaml\<close> has no such key.
\<close>

record config =
  MIN_EDGE :: real
  COST :: real
  WINDOW :: int
  MIN_CONF :: real
  DISABLE_WINDOWS :: int
  ENABLE_WINDOWS :: int
  COOLDOWN :: int
  min_weight :: "real option"
  max_weight :: "real option"

text \<open>
  The two command texts. \<open>DISABLE_ENGINE k s c\<close> stands for the line
  \<open>DISABLE_ENGINE {sym} reason=survival:{s}_conf:{c}\<close> and \<open>ENABLE_ENGINE k w\<close> for
  \<open>ENABLE_ENGINE {sym} weight={w}\<close>; the numbers are the ones the text shows.
\<close>

datatype command = DISABLE_ENGINE symbol real real | ENABLE_ENGINE symbol real

text \<open>A line of the command file, and a line printed on the console.\<close>

datatype log_line = ADVISE_line command | ACT_line command

datatype printed = OBSERVE_msg command | ADVISE_msg command | ACT_msg command

text \<open>The dict stored in \<open>STATE[sym]\<close>.\<close>

record engine_entry =
  edge :: real
  confidence :: real
  survival :: real
  fail_count :: int
  pass_count :: int
  trades_since_action :: int
  can_act :: bool
  mode :: string
  status :: string

text \<open>
  The module's globals, together with what the process has written so far: the command
  file's appended lines, the console, and the messages delivered to websocket clients.
  The three counters are \<open>defaultdict(int)\<close>: a function with value 0 where nothing
  was stored.
\<close>

record state =
  fail_counts :: "symbol \<Rightarrow> int"
  pass_counts :: "symbol \<Rightarrow> int"
  last_action_trade :: "symbol \<Rightarrow> int"
  STATE :: "symbol \<rightharpoonup> engine_entry"
  MODE :: string
  CLIENTS :: "nat list"
  cmd_file :: "log_line list"
  console :: "printed list"
  delivered :: "(nat \<times> string \<times> (symbol \<rightharpoonup> engine_entry)) list"

text \<open>The globals as the module initialises them, in mode \<open>m\<close>.\<close>

definition init_state :: "string \<Rightarrow> state" where
  "init_state m =
     \<lparr>fail_counts = (\<lambda>_. 0), pass_counts = (\<lambda>_. 0), last_action_trade = (\<lambda>_. 0),
      STATE = Map.empty, MODE = m, CLIENTS = [], cmd_file = [], console = [],
      delivered = []\<rparr>"

text \<open>
  A call either returns, or raises with the globals as they were mutated up to the raise.
\<close>

datatype result = Done state | Raised error state

fun state_of :: "result \<Rightarrow> state" where
  "state_of (Done s) = s"
| "state_of (Raised e s) = s"

fun raised :: "result \<Rightarrow> bool" where
  "raised (Done s) = False"
| "raised (Raised e s) = True"

subsection \<open>load_trades\<close>

text \<open>
  The csv source is \<open>None\<close> when opening or reading the file raises, else the rows read.
  The bare \<open>except\<close> turns every failure into the empty list.
\<close>

definition load_trades :: "row list option \<Rightarrow> row list" where
  "load_trades src = (case src of None \<Rightarrow> [] | Some rows \<Rightarrow> rows)"

subsection \<open>compute_confidence\<close>

text \<open>
  \<open>statistics.mean\<close> and \<open>statistics.pstdev\<close>, on finite values; both raise on empty
  data, and every call in the source is guarded by a length test. \<open>1e-9\<close> is modelled
  as the real \<open>10^-9\<close>.
\<close>

definition mean :: "real list \<Rightarrow> real" where
  "mean xs = sum_list xs / real (length xs)"

definition pstdev :: "real list \<Rightarrow> real" where
  "pstdev xs = sqrt (sum_list (map (\<lambda>x. (x - mean xs)\<^sup>2) xs) / real (length xs))"

definition compute_confidence :: "real list \<Rightarrow> real" where
  "compute_confidence pnls =
     (if length pnls < 5 then 0
      else let mu = mean pnls;
               sigma = (if pstdev pnls = 0 then 1 / 10 ^ 9 else pstdev pnls)
           in \<bar>mu / sigma\<bar>)"

subsection \<open>emit\<close>

text \<open>
  \<open>append_ok l\<close> tells whether opening the command file for append and writing the line
  \<open>l\<close> succeeds; where it does not, \<open>open\<close> or \<open>write\<close> raises \<open>OSError\<close>. ADVISE
  prints before it writes, ACT writes before it prints, and every mode other than OBSERVE
  and ADVISE takes the last branch.
\<close>

definition emit :: "(log_line \<Rightarrow> bool) \<Rightarrow> command \<Rightarrow> state \<Rightarrow> result" where
  "emit append_ok cmd s =
     (if MODE s = ''OBSERVE'' then Done (s\<lparr>console := console s @ [OBSERVE_msg cmd]\<rparr>)
      else if MODE s = ''ADVISE'' then
        (let s1 = s\<lparr>console := console s @ [ADVISE_msg cmd]\<rparr>
         in if append_ok (ADVISE_line cmd)
            then Done (s1\<lparr>cmd_file := cmd_file s1 @ [ADVISE_line cmd]\<rparr>)
            else Raised OSError s1)
      else
        (if append_ok (ACT_line cmd)
         then Done (s\<lparr>cmd_file := cmd_file s @ [ACT_line cmd],
                      console := console s @ [ACT_msg cmd]\<rparr>)
         else Raised OSError s))"

subsection \<open>broadcast\<close>

text \<open>
  \<open>send_ok c\<close> tells whether \<open>send_json\<close> to client \<open>c\<close> succeeds. The loop runs over a
  copy of \<open>CLIENTS\<close> and drops the clients whose send raises.
\<close>

fun broadcast_to ::
  "(nat \<Rightarrow> bool) \<Rightarrow> string \<times> (symbol \<rightharpoonup> engine_entry) \<Rightarrow> nat list \<Rightarrow> state \<Rightarrow> state" where
  "broadcast_to send_ok data [] s = s"
| "broadcast_to send_ok data (c # cs) s =
     broadcast_to send_ok data cs
       (if send_ok c then s\<lparr>delivered := delivered s @ [(c, data)]\<rparr>
        else s\<lparr>CLIENTS := removeAll c (CLIENTS s)\<rparr>)"

definition broadcast :: "(nat \<Rightarrow> bool) \<Rightarrow> string \<times> (symbol \<rightharpoonup> engine_entry) \<Rightarrow> state \<Rightarrow> state" where
  "broadcast send_ok data s = broadcast_to send_ok data (CLIENTS s) s"

subsection \<open>analyze\<close>

text \<open>
  Python's \<open>round(x, n)\<close> and the \<open>.2f\<close> format: the nearest multiple of \<open>10^-n\<close>, ties
  to the even one.
\<close>

definition py_round :: "nat \<Rightarrow> real \<Rightarrow> real" where
  "py_round n x =
     (let y = x * 10 ^ n; f = \<lfloor>y\<rfloor>; r = y - of_int f
      in of_int (if r < 1 / 2 then f else if 1 / 2 < r then f + 1
                 else if even f then f else f + 1) / 10 ^ n)"

text \<open>The slice \<open>trades[-WINDOW:]\<close>, for a window of any sign.\<close>

definition last_window :: "int \<Rightarrow> 'a list \<Rightarrow> 'a list" where
  "last_window w xs =
     (if 0 < w then drop (length xs - nat w) xs else drop (nat (- w)) xs)"

text \<open>
  The buckets dict, in insertion order: \<open>buckets[sym].append(v)\<close>, with a new empty
  list first where the symbol is new.
\<close>

type_synonym buckets = "(symbol \<times> real list) list"

fun bucket_append :: "symbol \<Rightarrow> real \<Rightarrow> buckets \<Rightarrow> buckets" where
  "bucket_append smb v [] = [(smb, [v])]"
| "bucket_append smb v ((k, vs) # b) =
     (if k = smb then (k, vs @ [v]) # b else (k, vs) # bucket_append smb v b)"

text \<open>
  The first loop of \<open>analyze\<close>. \<open>py_float\<close> is the builtin \<open>float\<close> on a text:
  \<open>None\<close> where it raises \<open>ValueError\<close>, else the finite number read. A missing key
  raises \<open>KeyError\<close>, and \<open>float(None)\<close> raises \<open>TypeError\<close>.
\<close>

fun build_buckets :: "(string \<Rightarrow> real option) \<Rightarrow> row list \<Rightarrow> buckets \<Rightarrow> error + buckets" where
  "build_buckets py_float [] b = Inr b"
| "build_buckets py_float (t # ts) b =
     (case t ''symbol'' of
        None \<Rightarrow> Inl KeyError
      | Some smb \<Rightarrow>
          (case t ''total_pnl'' of
             None \<Rightarrow> Inl KeyError
           | Some None \<Rightarrow> Inl TypeError
           | Some (Some txt) \<Rightarrow>
               (case py_float txt of
                  None \<Rightarrow> Inl ValueError
                | Some v \<Rightarrow> build_buckets py_float ts (bucket_append smb v b))))"

text \<open>The signal of one bucket: the locals \<open>edge\<close>, \<open>survival\<close> and \<open>is_failing\<close>.\<close>

definition edge_of :: "real list \<Rightarrow> real" where
  "edge_of pnls = (if pnls \<noteq> [] then mean pnls else 0)"

definition survival_of :: "config \<Rightarrow> real list \<Rightarrow> real" where
  "survival_of cfg pnls = edge_of pnls - COST cfg"

definition is_failing :: "config \<Rightarrow> real list \<Rightarrow> bool" where
  "is_failing cfg pnls \<longleftrightarrow>
     survival_of cfg pnls < MIN_EDGE cfg \<or> compute_confidence pnls < MIN_CONF cfg"

text \<open>Lines 110 to 115: one counter is incremented, the other is set to zero.\<close>

definition update_counts :: "bool \<Rightarrow> symbol \<Rightarrow> state \<Rightarrow> state" where
  "update_counts failing smb s =
     (if failing
      then s\<lparr>fail_counts := (fail_counts s)(smb := fail_counts s smb + 1),
             pass_counts := (pass_counts s)(smb := 0)\<rparr>
      else s\<lparr>pass_counts := (pass_counts s)(smb := pass_counts s smb + 1),
             fail_counts := (fail_counts s)(smb := 0)\<rparr>)"

text \<open>
  Lines 117 to 127: the entry stored in \<open>STATE[sym]\<close>, from the counters of the symbol as
  just updated and the mode.
\<close>

definition snapshot_entry :: "config \<Rightarrow> int \<Rightarrow> real list \<Rightarrow> int \<Rightarrow> int \<Rightarrow> string \<Rightarrow> engine_entry" where
  "snapshot_entry cfg tsa pnls fc pc m =
     \<lparr>edge = py_round 4 (edge_of pnls),
      confidence = py_round 4 (compute_confidence pnls),
      survival = py_round 4 (survival_of cfg pnls),
      fail_count = fc,
      pass_count = pc,
      trades_since_action = tsa,
      can_act = (COOLDOWN cfg \<le> tsa),
      mode = m,
      status = (if \<not> is_failing cfg pnls then ''PASS'' else ''WARN'')\<rparr>"

text \<open>Lines 134 to 137.\<close>

definition disable_check ::
  "config \<Rightarrow> (log_line \<Rightarrow> bool) \<Rightarrow> int \<Rightarrow> symbol \<Rightarrow> real list \<Rightarrow> state \<Rightarrow> result" where
  "disable_check cfg append_ok n smb pnls s =
     (if DISABLE_WINDOWS cfg \<le> fail_counts s smb then
        (case emit append_ok
                (DISABLE_ENGINE smb (py_round 2 (survival_of cfg pnls))
                   (py_round 2 (compute_confidence pnls))) s of
           Raised e s1 \<Rightarrow> Raised e s1
         | Done s1 \<Rightarrow>
             Done (s1\<lparr>fail_counts := (fail_counts s1)(smb := 0),
                      last_action_trade := (last_action_trade s1)(smb := n)\<rparr>))
      else Done s)"

text \<open>
  Lines 141 to 143, the local \<open>weight\<close>: \<open>CONFIG["max_weight"]\<close> is looked up before
  \<open>CONFIG["min_weight"]\<close>, and each lookup raises \<open>KeyError\<close> where the key is missing.
\<close>

definition enable_weight :: "config \<Rightarrow> real \<Rightarrow> error + real" where
  "enable_weight cfg conf =
     (case max_weight cfg of
        None \<Rightarrow> Inl KeyError
      | Some hi \<Rightarrow>
          (case min_weight cfg of
             None \<Rightarrow> Inl KeyError
           | Some lo \<Rightarrow> Inr (min hi (max lo (conf / 2)))))"

text \<open>Lines 140 to 146.\<close>

definition enable_check ::
  "config \<Rightarrow> (log_line \<Rightarrow> bool) \<Rightarrow> int \<Rightarrow> symbol \<Rightarrow> real list \<Rightarrow> state \<Rightarrow> result" where
  "enable_check cfg append_ok n smb pnls s =
     (if ENABLE_WINDOWS cfg \<le> pass_counts s smb then
        (case enable_weight cfg (compute_confidence pnls) of
           Inl e \<Rightarrow> Raised e s
         | Inr weight \<Rightarrow>
             (case emit append_ok (ENABLE_ENGINE smb (py_round 3 weight)) s of
                Raised e s1 \<Rightarrow> Raised e s1
              | Done s1 \<Rightarrow>
                  Done (s1\<lparr>pass_counts := (pass_counts s1)(smb := 0),
                           last_action_trade := (last_action_trade s1)(smb := n)\<rparr>)))
      else Done s)"

text \<open>
  Lines 104 to 127 for symbol \<open>smb\<close>: the counters, then the entry of \<open>STATE\<close>; \<open>n\<close> is
  \<open>current_trade_count\<close>.
\<close>

definition track_symbol :: "config \<Rightarrow> int \<Rightarrow> symbol \<Rightarrow> real list \<Rightarrow> state \<Rightarrow> state" where
  "track_symbol cfg n smb pnls s =
     (let tsa = n - last_action_trade s smb;
          s1 = update_counts (is_failing cfg pnls) smb s
      in s1\<lparr>STATE := (STATE s1)(smb \<mapsto>
             snapshot_entry cfg tsa pnls (fail_counts s1 smb) (pass_counts s1 smb) (MODE s1))\<rparr>)"

text \<open>The body of the second loop, lines 99 to 146, for one bucket.\<close>

definition eval_symbol ::
  "config \<Rightarrow> (log_line \<Rightarrow> bool) \<Rightarrow> int \<Rightarrow> symbol \<times> real list \<Rightarrow> state \<Rightarrow> result" where
  "eval_symbol cfg append_ok n b s =
     (let smb = fst b; pnls = snd b;
          tsa = n - last_action_trade s smb;
          s2 = track_symbol cfg n smb pnls s
      in if \<not> COOLDOWN cfg \<le> tsa then Done s2
         else (case disable_check cfg append_ok n smb pnls s2 of
                 Raised e s3 \<Rightarrow> Raised e s3
               | Done s3 \<Rightarrow> enable_check cfg append_ok n smb pnls s3))"

text \<open>The second loop: the buckets in insertion order, until one raises.\<close>

fun eval_buckets ::
  "config \<Rightarrow> (log_line \<Rightarrow> bool) \<Rightarrow> int \<Rightarrow> buckets \<Rightarrow> state \<Rightarrow> result" where
  "eval_buckets cfg append_ok n [] s = Done s"
| "eval_buckets cfg append_ok n (b # bs) s =
     (case eval_symbol cfg append_ok n b s of
        Raised e s1 \<Rightarrow> Raised e s1
      | Done s1 \<Rightarrow> eval_buckets cfg append_ok n bs s1)"

definition analyze ::
  "config \<Rightarrow> (string \<Rightarrow> real option) \<Rightarrow> (log_line \<Rightarrow> bool) \<Rightarrow> row list option \<Rightarrow> state \<Rightarrow> result" where
  "analyze cfg py_float append_ok src s =
     (let trades = load_trades src
      in if int (length trades) < WINDOW cfg then Done s
         else (case build_buckets py_float (last_window (WINDOW cfg) trades) [] of
                 Inl e \<Rightarrow> Raised e s
               | Inr bs \<Rightarrow> eval_buckets cfg append_ok (int (length trades)) bs s))"

subsection \<open>The websocket loop\<close>

text \<open>
  One round of the \<open>while True\<close> loop of the handler of client \<open>me\<close>: \<open>analyze()\<close>, then
  the broadcast of mode and \<open>STATE\<close>. An exception leaves the loop through the bare
  \<open>except\<close>, which removes the client. (Where a broadcast has removed the client
  before, \<open>CLIENTS.remove\<close> raises \<open>KeyError\<close> out of the handler; the globals are
  the same, and the loop has ended either way.)
\<close>

datatype loop = Continue state | Stopped state

definition ws_round ::
  "config \<Rightarrow> (string \<Rightarrow> real option) \<Rightarrow> (log_line \<Rightarrow> bool) \<Rightarrow> (nat \<Rightarrow> bool) \<Rightarrow> nat \<Rightarrow>
   row list option \<Rightarrow> state \<Rightarrow> loop" where
  "ws_round cfg py_float append_ok send_ok me src s =
     (case analyze cfg py_float append_ok src s of
        Raised e s1 \<Rightarrow> Stopped (s1\<lparr>CLIENTS := removeAll me (CLIENTS s1)\<rparr>)
      | Done s1 \<Rightarrow> Continue (broadcast send_ok (MODE s1, STATE s1) s1))"

fun loop_state :: "loop \<Rightarrow> state" where
  "loop_state (Continue s) = s"
| "loop_state (Stopped s) = s"

text \<open>
  The loop itself, for as many rounds as the list gives trade sources (what the csv file
  holds at each round); it ends at the first round that raises.
\<close>

fun ws_loop ::
  "config \<Rightarrow> (string \<Rightarrow> real option) \<Rightarrow> (log_line \<Rightarrow> bool) \<Rightarrow> (nat \<Rightarrow> bool) \<Rightarrow> nat \<Rightarrow>
   row list option list \<Rightarrow> state \<Rightarrow> loop" where
  "ws_loop cfg py_float append_ok send_ok me [] s = Continue s"
| "ws_loop cfg py_float append_ok send_ok me (src # srcs) s =
     (case ws_round cfg py_float append_ok send_ok me src s of
        Stopped s1 \<Rightarrow> Stopped s1
      | Continue s1 \<Rightarrow> ws_loop cfg py_float append_ok send_ok me srcs s1)"

subsection \<open>Reading the model\<close>

text \<open>The command of a console line and of a file line, and the symbol of a command.\<close>

fun cmd_symbol :: "command \<Rightarrow> symbol" where
  "cmd_symbol (DISABLE_ENGINE k sv c) = k"
| "cmd_symbol (ENABLE_ENGINE k w) = k"

fun is_disable :: "command \<Rightarrow> bool" where
  "is_disable (DISABLE_ENGINE k sv c) = True"
| "is_disable (ENABLE_ENGINE k w) = False"

fun printed_cmd :: "printed \<Rightarrow> command" where
  "printed_cmd (OBSERVE_msg c) = c"
| "printed_cmd (ADVISE_msg c) = c"
| "printed_cmd (ACT_msg c) = c"

fun line_cmd :: "log_line \<Rightarrow> command" where
  "line_cmd (ADVISE_line c) = c"
| "line_cmd (ACT_line c) = c"

text \<open>What has been printed and written about symbol \<open>k\<close> so far.\<close>

definition printed_for :: "symbol \<Rightarrow> state \<Rightarrow> printed list" where
  "printed_for k s = filter (\<lambda>m. cmd_symbol (printed_cmd m) = k) (console s)"

definition written_for :: "symbol \<Rightarrow> state \<Rightarrow> log_line list" where
  "written_for k s = filter (\<lambda>l. cmd_symbol (line_cmd l) = k) (cmd_file s)"

text \<open>Everything the globals and the outputs hold about symbol \<open>k\<close>.\<close>

definition view ::
  "symbol \<Rightarrow> state \<Rightarrow> int \<times> int \<times> int \<times> engine_entry option \<times> printed list \<times> log_line list" where
  "view k s =
     (fail_counts s k, pass_counts s k, last_action_trade s k, STATE s k,
      printed_for k s, written_for k s)"

subsection \<open>The gate of one symbol\<close>

text \<open>
  What one call of \<open>emit\<close> prints and writes in mode \<open>m\<close>, and whether it raises.
\<close>

definition emit_prints :: "string \<Rightarrow> (log_line \<Rightarrow> bool) \<Rightarrow> command \<Rightarrow> printed list" where
  "emit_prints m append_ok cmd =
     (if m = ''OBSERVE'' then [OBSERVE_msg cmd]
      else if m = ''ADVISE'' then [ADVISE_msg cmd]
      else if append_ok (ACT_line cmd) then [ACT_msg cmd] else [])"

definition emit_writes :: "string \<Rightarrow> (log_line \<Rightarrow> bool) \<Rightarrow> command \<Rightarrow> log_line list" where
  "emit_writes m append_ok cmd =
     (if m = ''OBSERVE'' then []
      else if m = ''ADVISE'' then (if append_ok (ADVISE_line cmd) then [ADVISE_line cmd] else [])
      else if append_ok (ACT_line cmd) then [ACT_line cmd] else [])"

definition emit_fails :: "string \<Rightarrow> (log_line \<Rightarrow> bool) \<Rightarrow> command \<Rightarrow> bool" where
  "emit_fails m append_ok cmd =
     (if m = ''OBSERVE'' then False
      else if m = ''ADVISE'' then \<not> append_ok (ADVISE_line cmd)
      else \<not> append_ok (ACT_line cmd))"

text \<open>
  The two commands that the body of the loop builds for symbol \<open>k\<close>, the second one
  from the local \<open>weight\<close>.
\<close>

definition disable_cmd :: "config \<Rightarrow> symbol \<Rightarrow> real list \<Rightarrow> command" where
  "disable_cmd cfg k pnls =
     DISABLE_ENGINE k (py_round 2 (survival_of cfg pnls)) (py_round 2 (compute_confidence pnls))"

definition enable_cmd :: "symbol \<Rightarrow> real \<Rightarrow> command" where
  "enable_cmd k weight = ENABLE_ENGINE k (py_round 3 weight)"

text \<open>
  The body of the loop seen from one symbol: the same steps, on the view of the symbol
  instead of the globals. The second component tells whether the step raises.
\<close>

type_synonym gate_view =
  "int \<times> int \<times> int \<times> engine_entry option \<times> printed list \<times> log_line list"

definition gate_track ::
  "config \<Rightarrow> string \<Rightarrow> int \<Rightarrow> real list \<Rightarrow> gate_view \<Rightarrow> gate_view" where
  "gate_track cfg m n pnls v =
     (case v of (fc, pc, la, st, pr, wr) \<Rightarrow>
        (let fc1 = (if is_failing cfg pnls then fc + 1 else 0);
             pc1 = (if is_failing cfg pnls then 0 else pc + 1)
         in (fc1, pc1, la, Some (snapshot_entry cfg (n - la) pnls fc1 pc1 m), pr, wr)))"

definition gate_disable ::
  "config \<Rightarrow> (log_line \<Rightarrow> bool) \<Rightarrow> string \<Rightarrow> int \<Rightarrow> symbol \<Rightarrow> real list \<Rightarrow> gate_view \<Rightarrow>
   gate_view \<times> bool" where
  "gate_disable cfg append_ok m n k pnls v =
     (case v of (fc, pc, la, st, pr, wr) \<Rightarrow>
        if DISABLE_WINDOWS cfg \<le> fc then
          (let c = disable_cmd cfg k pnls;
               pr1 = pr @ emit_prints m append_ok c; wr1 = wr @ emit_writes m append_ok c
           in if emit_fails m append_ok c then ((fc, pc, la, st, pr1, wr1), True)
              else ((0, pc, n, st, pr1, wr1), False))
        else (v, False))"

definition gate_enable ::
  "config \<Rightarrow> (log_line \<Rightarrow> bool) \<Rightarrow> string \<Rightarrow> int \<Rightarrow> symbol \<Rightarrow> real list \<Rightarrow> gate_view \<Rightarrow>
   gate_view \<times> bool" where
  "gate_enable cfg append_ok m n k pnls v =
     (case v of (fc, pc, la, st, pr, wr) \<Rightarrow>
        if ENABLE_WINDOWS cfg \<le> pc then
          (case enable_weight cfg (compute_confidence pnls) of
             Inl e \<Rightarrow> (v, True)
           | Inr weight \<Rightarrow>
               (let c = enable_cmd k weight;
                    pr1 = pr @ emit_prints m append_ok c; wr1 = wr @ emit_writes m append_ok c
                in if emit_fails m append_ok c then ((fc, pc, la, st, pr1, wr1), True)
                   else ((fc, 0, n, st, pr1, wr1), False)))
        else (v, False))"

definition gate ::
  "config \<Rightarrow> (log_line \<Rightarrow> bool) \<Rightarrow> string \<Rightarrow> int \<Rightarrow> symbol \<Rightarrow> real list \<Rightarrow> gate_view \<Rightarrow>
   gate_view \<times> bool" where
  "gate cfg append_ok m n k pnls v =
     (let t = gate_track cfg m n pnls v
      in if \<not> COOLDOWN cfg \<le> n - fst (snd (snd v)) then (t, False)
         else if snd (gate_disable cfg append_ok m n k pnls t)
         then gate_disable cfg append_ok m n k pnls t
         else gate_enable cfg append_ok m n k pnls (fst (gate_disable cfg append_ok m n k pnls t)))"

text \<open>
  The PnL values on which a tick with trade source \<open>src\<close> evaluates symbol \<open>k\<close>:
  \<open>None\<close> when the tick is skipped, raises while bucketing, or has no row of \<open>k\<close> in
  its window.
\<close>

definition window_pnls ::
  "config \<Rightarrow> (string \<Rightarrow> real option) \<Rightarrow> row list option \<Rightarrow> symbol \<Rightarrow> real list option" where
  "window_pnls cfg py_float src k =
     (let trades = load_trades src
      in if int (length trades) < WINDOW cfg then None
         else (case build_buckets py_float (last_window (WINDOW cfg) trades) [] of
                 Inl e \<Rightarrow> None
               | Inr bs \<Rightarrow> map_of bs k))"

text \<open>Clamping a value into an interval, as the specification words it.\<close>

definition clamp :: "real \<Rightarrow> real \<Rightarrow> real \<Rightarrow> real" where
  "clamp x lo hi = (if x < lo then lo else if hi < x then hi else x)"

text \<open>The invariant of the two counters of symbol \<open>k\<close>.\<close>

definition counters_ok :: "state \<Rightarrow> symbol \<Rightarrow> bool" where
  "counters_ok s k \<longleftrightarrow>
     0 \<le> fail_counts s k \<and> 0 \<le> pass_counts s k \<and> (fail_counts s k = 0 \<or> pass_counts s k = 0)"

text \<open>
  What has been printed and written about symbol \<open>k\<close> between an earlier state \<open>s\<close> and
  a later state \<open>s'\<close>; both outputs only grow.
\<close>

definition new_printed :: "symbol \<Rightarrow> state \<Rightarrow> state \<Rightarrow> printed list" where
  "new_printed k s s' = drop (length (printed_for k s)) (printed_for k s')"

definition new_written :: "symbol \<Rightarrow> state \<Rightarrow> state \<Rightarrow> log_line list" where
  "new_written k s s' = drop (length (written_for k s)) (written_for k s')"




fun stopped :: "loop \<Rightarrow> bool" where
  "stopped (Continue s) = False"
| "stopped (Stopped s) = True"

text \<open>
  Whether a tick with trade source \<open>src\<close>, started with the globals \<open>s\<close>, gets as far
  as the body of the second loop for symbol \<open>k\<close>: the tick is not skipped, the first loop
  does not raise, \<open>k\<close> has a bucket, and the bodies of the buckets before it all return.
\<close>

definition reaches ::
  "config \<Rightarrow> (string \<Rightarrow> real option) \<Rightarrow> (log_line \<Rightarrow> bool) \<Rightarrow> symbol \<Rightarrow>
   row list option \<Rightarrow> state \<Rightarrow> bool" where
  "reaches cfg py_float append_ok k src s =
     (let trades = load_trades src
      in if int (length trades) < WINDOW cfg then False
         else (case build_buckets py_float (last_window (WINDOW cfg) trades) [] of
                 Inl e \<Rightarrow> False
               | Inr bs \<Rightarrow>
                   k \<in> fst ` set bs \<and>
                   \<not> raised (eval_buckets cfg append_ok (int (length trades))
                                (takeWhile (\<lambda>b. fst b \<noteq> k) bs) s)))"



subsection \<open>Test data\<close>

text \<open>
  The value of \<open>float\<close> on the texts that the examples use; \<open>abc\<close> is the one on which
  it raises.
\<close>

definition float_lit :: "string \<Rightarrow> real option" where
  "float_lit = map_of [(''-2.0'', - 2), (''1.0'', 1), (''3.0'', 3)]"

definition trade :: "string \<Rightarrow> string \<Rightarrow> row" where
  "trade k p = [''symbol'' \<mapsto> Some k, ''total_pnl'' \<mapsto> Some p]"

text \<open>A command file that takes every line, one that refuses every line, a client that receives.\<close>

definition writable :: "log_line \<Rightarrow> bool" where
  "writable l = True"

definition unwritable :: "log_line \<Rightarrow> bool" where
  "unwritable l = False"

definition reachable :: "nat \<Rightarrow> bool" where
  "reachable c = True"

text \<open>Five losing trades of A, and five winning ones.\<close>

definition losing :: "row list" where
  "losing = [trade ''A'' ''-2.0'', trade ''A'' ''-2.0'', trade ''A'' ''-2.0'',
             trade ''A'' ''-2.0'', trade ''A'' ''-2.0'']"

definition winning :: "row list" where
  "winning = [trade ''A'' ''3.0'', trade ''A'' ''3.0'', trade ''A'' ''3.0'',
              trade ''A'' ''3.0'', trade ''A'' ''1.0'']"


text \<open>Four trades of A and a fifth row without \<open>total_pnl\<close>, or with a text that is no number.\<close>

definition no_pnl :: "row list" where
  "no_pnl = [trade ''A'' ''1.0'', trade ''A'' ''1.0'', trade ''A'' ''1.0'', trade ''A'' ''1.0'',
             [''symbol'' \<mapsto> Some ''A'']]"

definition bad_pnl :: "row list" where
  "bad_pnl = [trade ''A'' ''1.0'', trade ''A'' ''1.0'', trade ''A'' ''1.0'', trade ''A'' ''1.0'',
              trade ''A'' ''abc'']"

text \<open>Four trades of A at 1.0 and one at -2.0: mean 0.4, deviation 1.2.\<close>

definition steady :: "row list" where
  "steady = [trade ''A'' ''1.0'', trade ''A'' ''1.0'', trade ''A'' ''1.0'', trade ''A'' ''1.0'',
             trade ''A'' ''-2.0'']"

text \<open>
  A window of five trades, cost 1, minimal edge 0.5, minimal confidence 0.3, weights between
  0.05 and 0.5, no cooldown, and the thresholds \<open>d\<close> to disable and \<open>e\<close> to enable.
\<close>

definition cfg_of :: "int \<Rightarrow> int \<Rightarrow> config" where
  "cfg_of d e =
     \<lparr>MIN_EDGE = 1 / 2, COST = 1, WINDOW = 5, MIN_CONF = 3 / 10, DISABLE_WINDOWS = d,
      ENABLE_WINDOWS = e, COOLDOWN = 0, min_weight = Some (1 / 20), max_weight = Some (1 / 2)\<rparr>"

text \<open>
  The same with a cooldown of 100 trades, the same without cost and minimal edge, and the
  same without the key \<open>max_weight\<close>.
\<close>

definition cfg_cooldown :: config where
  "cfg_cooldown = (cfg_of 1 1)\<lparr>COOLDOWN := 100\<rparr>"

definition cfg_free :: config where
  "cfg_free = (cfg_of 3 1)\<lparr>COST := 0, MIN_EDGE := 0\<rparr>"


text \<open>The initial globals with one connected client, number 0.\<close>

definition one_client :: "string \<Rightarrow> state" where
  "one_client m = (init_state m)\<lparr>CLIENTS := [0]\<rparr>"






section \<open>Properties\<close>

subsection \<open>What one call changes for one symbol\<close>

lemmas view_defs = view_def printed_for_def written_for_def

lemma emit_MODE: "MODE (state_of (emit ok c s)) = MODE s"
  by (simp add: emit_def Let_def)

lemma emit_frame: "cmd_symbol c \<noteq> k \<Longrightarrow> view k (state_of (emit ok c s)) = view k s"
  by (simp add: emit_def Let_def view_defs)

lemma emit_cong:
  "view k s1 = view k s \<Longrightarrow> MODE s1 = MODE s \<Longrightarrow>
   view k (state_of (emit ok c s1)) = view k (state_of (emit ok c s)) \<and>
   raised (emit ok c s1) = raised (emit ok c s)"
  by (simp add: emit_def Let_def view_defs)

lemma reset_fail_view:
  "view k (s1\<lparr>fail_counts := (fail_counts s1)(j := 0), last_action_trade := (last_action_trade s1)(j := n)\<rparr>)
   = (if k = j then (0, pass_counts s1 k, n, STATE s1 k, printed_for k s1, written_for k s1) else view k s1)"
  by (simp add: view_defs)

lemma reset_pass_view:
  "view k (s1\<lparr>pass_counts := (pass_counts s1)(j := 0), last_action_trade := (last_action_trade s1)(j := n)\<rparr>)
   = (if k = j then (fail_counts s1 k, 0, n, STATE s1 k, printed_for k s1, written_for k s1) else view k s1)"
  by (simp add: view_defs)

lemma view_eqD:
  "view k s1 = view k s \<Longrightarrow>
   fail_counts s1 k = fail_counts s k \<and> pass_counts s1 k = pass_counts s k \<and>
   last_action_trade s1 k = last_action_trade s k \<and> STATE s1 k = STATE s k \<and>
   printed_for k s1 = printed_for k s \<and> written_for k s1 = written_for k s"
  by (simp add: view_def)

lemma disable_check_MODE: "MODE (state_of (disable_check cfg ok n j pnls s)) = MODE s"
proof (cases "emit ok (DISABLE_ENGINE j (py_round 2 (survival_of cfg pnls)) (py_round 2 (compute_confidence pnls))) s")
  case (Done s1)
  with emit_MODE [of ok "DISABLE_ENGINE j (py_round 2 (survival_of cfg pnls)) (py_round 2 (compute_confidence pnls))" s]
  show ?thesis by (simp add: disable_check_def)
next
  case (Raised e s1)
  with emit_MODE [of ok "DISABLE_ENGINE j (py_round 2 (survival_of cfg pnls)) (py_round 2 (compute_confidence pnls))" s]
  show ?thesis by (simp add: disable_check_def)
qed

lemma disable_check_frame:
  assumes "k \<noteq> j"
  shows "view k (state_of (disable_check cfg ok n j pnls s)) = view k s"
proof -
  let ?c = "DISABLE_ENGINE j (py_round 2 (survival_of cfg pnls)) (py_round 2 (compute_confidence pnls))"
  have v: "view k (state_of (emit ok ?c s)) = view k s"
    using assms by (simp add: emit_frame)
  show ?thesis
  proof (cases "emit ok ?c s")
    case (Done s1)
    with v assms show ?thesis by (simp add: disable_check_def reset_fail_view)
  next
    case (Raised e s1)
    with v show ?thesis by (simp add: disable_check_def)
  qed
qed

lemma disable_check_cong:
  assumes "view j s1 = view j s" and "MODE s1 = MODE s"
  shows "view j (state_of (disable_check cfg ok n j pnls s1)) = view j (state_of (disable_check cfg ok n j pnls s))
     \<and> raised (disable_check cfg ok n j pnls s1) = raised (disable_check cfg ok n j pnls s)"
proof -
  let ?c = "DISABLE_ENGINE j (py_round 2 (survival_of cfg pnls)) (py_round 2 (compute_confidence pnls))"
  have f: "fail_counts s1 j = fail_counts s j" using assms(1) by (simp add: view_def)
  note e = emit_cong [OF assms, of ok ?c]
  show ?thesis
  proof (cases "emit ok ?c s")
    case Done1: (Done t)
    then obtain t1 where t1: "emit ok ?c s1 = Done t1" using e by (cases "emit ok ?c s1") auto
    with Done1 e have "view j t1 = view j t" by simp
    from view_eqD [OF this] show ?thesis using Done1 t1 f assms(1) by (simp add: disable_check_def reset_fail_view)
  next
    case R: (Raised x t)
    then obtain x1 t1 where t1: "emit ok ?c s1 = Raised x1 t1" using e by (cases "emit ok ?c s1") auto
    with R e have "view j t1 = view j t" by simp
    then show ?thesis using R t1 f assms(1) by (simp add: disable_check_def)
  qed
qed

lemma enable_check_MODE: "MODE (state_of (enable_check cfg ok n j pnls s)) = MODE s"
proof (cases "enable_weight cfg (compute_confidence pnls)")
  case (Inl x)
  then show ?thesis by (simp add: enable_check_def)
next
  case (Inr w)
  show ?thesis
  proof (cases "emit ok (ENABLE_ENGINE j (py_round 3 w)) s")
    case (Done s1)
    with emit_MODE [of ok "ENABLE_ENGINE j (py_round 3 w)" s] Inr
    show ?thesis by (simp add: enable_check_def)
  next
    case (Raised e s1)
    with emit_MODE [of ok "ENABLE_ENGINE j (py_round 3 w)" s] Inr
    show ?thesis by (simp add: enable_check_def)
  qed
qed

lemma enable_check_frame:
  assumes "k \<noteq> j"
  shows "view k (state_of (enable_check cfg ok n j pnls s)) = view k s"
proof (cases "enable_weight cfg (compute_confidence pnls)")
  case (Inl x)
  then show ?thesis by (simp add: enable_check_def)
next
  case (Inr w)
  let ?c = "ENABLE_ENGINE j (py_round 3 w)"
  have v: "view k (state_of (emit ok ?c s)) = view k s"
    using assms by (simp add: emit_frame)
  show ?thesis
  proof (cases "emit ok ?c s")
    case (Done s1)
    with v assms Inr show ?thesis by (simp add: enable_check_def reset_pass_view)
  next
    case (Raised e s1)
    with v Inr show ?thesis by (simp add: enable_check_def)
  qed
qed

lemma enable_check_cong:
  assumes "view j s1 = view j s" and "MODE s1 = MODE s"
  shows "view j (state_of (enable_check cfg ok n j pnls s1)) = view j (state_of (enable_check cfg ok n j pnls s))
     \<and> raised (enable_check cfg ok n j pnls s1) = raised (enable_check cfg ok n j pnls s)"
proof (cases "enable_weight cfg (compute_confidence pnls)")
  case (Inl x)
  from assms(1) have "pass_counts s1 j = pass_counts s j" by (simp add: view_def)
  with Inl assms(1) show ?thesis by (simp add: enable_check_def)
next
  case (Inr w)
  let ?c = "ENABLE_ENGINE j (py_round 3 w)"
  have f: "pass_counts s1 j = pass_counts s j" using assms(1) by (simp add: view_def)
  note e = emit_cong [OF assms, of ok ?c]
  show ?thesis
  proof (cases "emit ok ?c s")
    case Done1: (Done t)
    then obtain t1 where t1: "emit ok ?c s1 = Done t1" using e by (cases "emit ok ?c s1") auto
    with Done1 e have "view j t1 = view j t" by simp
    from view_eqD [OF this] show ?thesis using Done1 t1 f assms(1) Inr
      by (simp add: enable_check_def reset_pass_view)
  next
    case R: (Raised x t)
    then obtain x1 t1 where t1: "emit ok ?c s1 = Raised x1 t1" using e by (cases "emit ok ?c s1") auto
    with R e have "view j t1 = view j t" by simp
    then show ?thesis using R t1 f assms(1) Inr by (simp add: enable_check_def)
  qed
qed


lemma track_symbol_MODE: "MODE (track_symbol cfg n j pnls s) = MODE s"
  by (simp add: track_symbol_def update_counts_def Let_def)

lemma track_symbol_last: "last_action_trade (track_symbol cfg n j pnls s) = last_action_trade s"
  by (simp add: track_symbol_def update_counts_def Let_def)

lemma track_symbol_frame: "k \<noteq> j \<Longrightarrow> view k (track_symbol cfg n j pnls s) = view k s"
  by (simp add: track_symbol_def update_counts_def Let_def view_defs)

lemma track_symbol_cong:
  "view j s1 = view j s \<Longrightarrow> MODE s1 = MODE s \<Longrightarrow>
   view j (track_symbol cfg n j pnls s1) = view j (track_symbol cfg n j pnls s)"
  by (simp add: track_symbol_def update_counts_def Let_def view_defs)

lemma eval_symbol_MODE: "MODE (state_of (eval_symbol cfg ok n b s)) = MODE s"
proof -
  let ?s2 = "track_symbol cfg n (fst b) (snd b) s"
  show ?thesis
  proof (cases "disable_check cfg ok n (fst b) (snd b) ?s2")
    case (Done s3)
    with disable_check_MODE [of cfg ok n "fst b" "snd b" ?s2]
    have "MODE s3 = MODE s" by (simp add: track_symbol_MODE)
    with Done show ?thesis
      by (simp add: eval_symbol_def Let_def track_symbol_MODE enable_check_MODE)
  next
    case (Raised e s3)
    with disable_check_MODE [of cfg ok n "fst b" "snd b" ?s2]
    have "MODE s3 = MODE s" by (simp add: track_symbol_MODE)
    with Raised show ?thesis
      by (simp add: eval_symbol_def Let_def track_symbol_MODE)
  qed
qed

lemma eval_symbol_frame:
  assumes "k \<noteq> fst b"
  shows "view k (state_of (eval_symbol cfg ok n b s)) = view k s"
proof -
  let ?s2 = "track_symbol cfg n (fst b) (snd b) s"
  have v2: "view k ?s2 = view k s" using assms by (simp add: track_symbol_frame)
  have v3: "view k (state_of (disable_check cfg ok n (fst b) (snd b) ?s2)) = view k s"
    using assms v2 by (simp add: disable_check_frame)
  show ?thesis
  proof (cases "disable_check cfg ok n (fst b) (snd b) ?s2")
    case (Done s3)
    with v3 have "view k s3 = view k s" by simp
    with Done v2 assms show ?thesis
      by (simp add: eval_symbol_def Let_def enable_check_frame)
  next
    case (Raised e s3)
    with v3 have "view k s3 = view k s" by simp
    with Raised v2 show ?thesis
      by (simp add: eval_symbol_def Let_def)
  qed
qed

lemma eval_symbol_cong:
  assumes "view (fst b) s1 = view (fst b) s" and "MODE s1 = MODE s"
  shows "view (fst b) (state_of (eval_symbol cfg ok n b s1)) = view (fst b) (state_of (eval_symbol cfg ok n b s))
     \<and> raised (eval_symbol cfg ok n b s1) = raised (eval_symbol cfg ok n b s)"
proof -
  let ?j = "fst b" and ?p = "snd b"
  let ?t1 = "track_symbol cfg n ?j ?p s1" and ?t = "track_symbol cfg n ?j ?p s"
  have l: "last_action_trade s1 ?j = last_action_trade s ?j" using assms(1) by (simp add: view_def)
  have vt: "view ?j ?t1 = view ?j ?t" using assms by (rule track_symbol_cong)
  have mt: "MODE ?t1 = MODE ?t" using assms(2) by (simp add: track_symbol_MODE)
  note d = disable_check_cong [OF vt mt, of cfg ok n ?p]
  show ?thesis
  proof (cases "disable_check cfg ok n ?j ?p ?t")
    case D: (Done u)
    then obtain u1 where u1: "disable_check cfg ok n ?j ?p ?t1 = Done u1"
      using d by (cases "disable_check cfg ok n ?j ?p ?t1") auto
    have vu: "view ?j u1 = view ?j u" using d D u1 by simp
    have mu: "MODE u1 = MODE u"
      using disable_check_MODE [of cfg ok n ?j ?p ?t1] disable_check_MODE [of cfg ok n ?j ?p ?t] D u1 mt
      by simp
    from enable_check_cong [OF vu mu, of cfg ok n ?p] D u1 l vt show ?thesis
      by (simp add: eval_symbol_def Let_def)
  next
    case R: (Raised x u)
    then obtain x1 u1 where u1: "disable_check cfg ok n ?j ?p ?t1 = Raised x1 u1"
      using d by (cases "disable_check cfg ok n ?j ?p ?t1") auto
    have vu: "view ?j u1 = view ?j u" using d R u1 by simp
    with R u1 l vt show ?thesis
      by (simp add: eval_symbol_def Let_def)
  qed
qed


lemma eval_buckets_MODE: "MODE (state_of (eval_buckets cfg ok n bs s)) = MODE s"
proof (induction bs arbitrary: s)
  case Nil
  show ?case by simp
next
  case (Cons b bs)
  show ?case
  proof (cases "eval_symbol cfg ok n b s")
    case (Done s1)
    with eval_symbol_MODE [of cfg ok n b s] have "MODE s1 = MODE s" by simp
    with Done Cons.IH [of s1] show ?thesis by simp
  next
    case (Raised e s1)
    with eval_symbol_MODE [of cfg ok n b s] show ?thesis by simp
  qed
qed

lemma eval_buckets_frame:
  "k \<notin> fst ` set bs \<Longrightarrow> view k (state_of (eval_buckets cfg ok n bs s)) = view k s"
proof (induction bs arbitrary: s)
  case Nil
  show ?case by simp
next
  case (Cons b bs)
  then have kb: "k \<noteq> fst b" and kbs: "k \<notin> fst ` set bs" by auto
  show ?case
  proof (cases "eval_symbol cfg ok n b s")
    case (Done s1)
    with eval_symbol_frame [OF kb, of cfg ok n s] have "view k s1 = view k s" by simp
    with Done Cons.IH [OF kbs, of s1] show ?thesis by simp
  next
    case (Raised e s1)
    with eval_symbol_frame [OF kb, of cfg ok n s] show ?thesis by simp
  qed
qed

lemma eval_buckets_view:
  "distinct (map fst bs) \<Longrightarrow>
   view k (state_of (eval_buckets cfg ok n bs s)) = view k s \<or>
   (\<exists>pnls. (k, pnls) \<in> set bs \<and>
      view k (state_of (eval_buckets cfg ok n bs s)) = view k (state_of (eval_symbol cfg ok n (k, pnls) s)))"
proof (induction bs arbitrary: s)
  case Nil
  show ?case by simp
next
  case (Cons b bs)
  then have d: "distinct (map fst bs)" and nb: "fst b \<notin> fst ` set bs" by auto
  show ?case
  proof (cases "k = fst b")
    case True
    then have b: "b = (k, snd b)" by simp
    have "view k (state_of (eval_buckets cfg ok n (b # bs) s)) = view k (state_of (eval_symbol cfg ok n b s))"
    proof (cases "eval_symbol cfg ok n b s")
      case (Done s1)
      with eval_buckets_frame [of k bs cfg ok n s1] nb True show ?thesis by simp
    next
      case (Raised e s1)
      then show ?thesis by simp
    qed
    with b show ?thesis by (metis list.set_intros(1))
  next
    case False
    note fr = eval_symbol_frame [OF False, of cfg ok n s]
    show ?thesis
    proof (cases "eval_symbol cfg ok n b s")
      case (Raised e s1)
      with fr show ?thesis by simp
    next
      case (Done s1)
      with fr have v1: "view k s1 = view k s" by simp
      from Done eval_symbol_MODE [of cfg ok n b s] have m1: "MODE s1 = MODE s" by simp
      from Cons.IH [OF d, of s1] show ?thesis
      proof
        assume "view k (state_of (eval_buckets cfg ok n bs s1)) = view k s1"
        with Done v1 show ?thesis by simp
      next
        assume "\<exists>pnls. (k, pnls) \<in> set bs \<and>
          view k (state_of (eval_buckets cfg ok n bs s1)) = view k (state_of (eval_symbol cfg ok n (k, pnls) s1))"
        then obtain pnls where p: "(k, pnls) \<in> set bs"
          and v: "view k (state_of (eval_buckets cfg ok n bs s1)) = view k (state_of (eval_symbol cfg ok n (k, pnls) s1))"
          by blast
        from eval_symbol_cong [of "(k, pnls)" s1 s cfg ok n] v1 m1
        have "view k (state_of (eval_symbol cfg ok n (k, pnls) s1)) = view k (state_of (eval_symbol cfg ok n (k, pnls) s))"
          by simp
        with v Done p show ?thesis by auto
      qed
    qed
  qed
qed


lemma bucket_append_keys:
  "map fst (bucket_append j v b) = (if j \<in> fst ` set b then map fst b else map fst b @ [j])"
proof (induction b)
  case Nil
  show ?case by simp
next
  case (Cons p b)
  obtain i vs where p: "p = (i, vs)" by (cases p)
  have "j \<in> fst ` set b \<or> j \<notin> fst ` set b" by simp
  with Cons p show ?case by auto
qed

lemma build_buckets_distinct:
  "distinct (map fst b) \<Longrightarrow> build_buckets fl ts b = Inr bs \<Longrightarrow> distinct (map fst bs)"
proof (induction ts arbitrary: b)
  case Nil
  then show ?case by simp
next
  case (Cons t ts)
  from Cons.prems(2) obtain j v where
    "build_buckets fl ts (bucket_append j v b) = Inr bs"
    by (auto split: option.splits)
  moreover have "distinct (map fst (bucket_append j v b))"
    using Cons.prems(1) by (simp add: bucket_append_keys)
  ultimately show ?case by (rule Cons.IH [rotated])
qed

lemmas eval_defs = eval_symbol_def track_symbol_def disable_check_def enable_check_def
  enable_weight_def emit_def update_counts_def Let_def


lemma track_symbol_outputs:
  "console (track_symbol cfg n k pnls s) = console s \<and> cmd_file (track_symbol cfg n k pnls s) = cmd_file s"
  by (simp add: track_symbol_def update_counts_def Let_def)

lemma analyze_MODE: "MODE (state_of (analyze cfg fl ok src s)) = MODE s"
  by (simp add: analyze_def Let_def eval_buckets_MODE split: sum.splits)

lemma analyze_view:
  "view k (state_of (analyze cfg fl ok src s)) = view k s \<or>
   (\<exists>pnls. window_pnls cfg fl src k = Some pnls \<and>
      view k (state_of (analyze cfg fl ok src s)) =
      view k (state_of (eval_symbol cfg ok (int (length (load_trades src))) (k, pnls) s)))"
proof (cases "int (length (load_trades src)) < WINDOW cfg")
  case True
  then show ?thesis by (simp add: analyze_def)
next
  case False
  show ?thesis
  proof (cases "build_buckets fl (last_window (WINDOW cfg) (load_trades src)) []")
    case (Inl e)
    with False show ?thesis by (simp add: analyze_def)
  next
    case (Inr bs)
    from build_buckets_distinct [OF _ Inr] have d: "distinct (map fst bs)" by simp
    from False Inr have a: "analyze cfg fl ok src s = eval_buckets cfg ok (int (length (load_trades src))) bs s"
      by (simp add: analyze_def)
    from False Inr have w: "window_pnls cfg fl src k = map_of bs k"
      by (simp add: window_pnls_def)
    from eval_buckets_view [OF d, of k cfg ok "int (length (load_trades src))" s] a w d
    show ?thesis by auto
  qed
qed


lemma analyze_absent:
  assumes "window_pnls cfg fl src k = None"
  shows "view k (state_of (analyze cfg fl ok src s)) = view k s"
  using analyze_view [of k cfg fl ok src s] assms by simp

lemma broadcast_to_fields:
  "fail_counts (broadcast_to sok d cs s) = fail_counts s \<and>
   pass_counts (broadcast_to sok d cs s) = pass_counts s \<and>
   last_action_trade (broadcast_to sok d cs s) = last_action_trade s \<and>
   STATE (broadcast_to sok d cs s) = STATE s \<and>
   MODE (broadcast_to sok d cs s) = MODE s \<and>
   cmd_file (broadcast_to sok d cs s) = cmd_file s \<and>
   console (broadcast_to sok d cs s) = console s"
  by (induction cs arbitrary: s) simp_all

lemma broadcast_view: "view k (broadcast sok d s) = view k s"
  by (simp add: broadcast_def view_defs broadcast_to_fields)

lemma broadcast_MODE: "MODE (broadcast sok d s) = MODE s"
  by (simp add: broadcast_def broadcast_to_fields)

lemma broadcast_cmd_file: "cmd_file (broadcast sok d s) = cmd_file s"
  by (simp add: broadcast_def broadcast_to_fields)

lemma ws_round_view:
  "view k (loop_state (ws_round cfg fl ok sok me src s)) = view k (state_of (analyze cfg fl ok src s))"
proof (cases "analyze cfg fl ok src s")
  case (Done s1)
  then show ?thesis by (simp add: ws_round_def broadcast_view)
next
  case (Raised e s1)
  then show ?thesis by (simp add: ws_round_def view_defs)
qed

lemma ws_round_MODE: "MODE (loop_state (ws_round cfg fl ok sok me src s)) = MODE s"
  using analyze_MODE [of cfg fl ok src s]
  by (cases "analyze cfg fl ok src s") (simp_all add: ws_round_def broadcast_MODE)

lemma ws_round_cmd_file:
  "cmd_file (loop_state (ws_round cfg fl ok sok me src s)) = cmd_file (state_of (analyze cfg fl ok src s))"
  by (cases "analyze cfg fl ok src s") (simp_all add: ws_round_def broadcast_cmd_file)

subsection \<open>The gate refines the body of the loop\<close>

lemma emit_eq:
  "emit ok c s =
     (if emit_fails (MODE s) ok c
      then Raised OSError (s\<lparr>console := console s @ emit_prints (MODE s) ok c,
                               cmd_file := cmd_file s @ emit_writes (MODE s) ok c\<rparr>)
      else Done (s\<lparr>console := console s @ emit_prints (MODE s) ok c,
                    cmd_file := cmd_file s @ emit_writes (MODE s) ok c\<rparr>))"
  by (simp add: emit_def emit_prints_def emit_writes_def emit_fails_def Let_def)

lemma emit_prints_filter:
  "filter (\<lambda>m. cmd_symbol (printed_cmd m) = k) (emit_prints md ok c) =
     (if cmd_symbol c = k then emit_prints md ok c else [])"
  by (simp add: emit_prints_def)

lemma emit_writes_filter:
  "filter (\<lambda>l. cmd_symbol (line_cmd l) = k) (emit_writes md ok c) =
     (if cmd_symbol c = k then emit_writes md ok c else [])"
  by (simp add: emit_writes_def)

lemma emit_raised: "raised (emit ok c s) = emit_fails (MODE s) ok c"
  by (simp add: emit_eq)

lemma emit_view:
  "cmd_symbol c = k \<Longrightarrow>
   view k (state_of (emit ok c s)) =
     (fail_counts s k, pass_counts s k, last_action_trade s k, STATE s k,
      printed_for k s @ emit_prints (MODE s) ok c, written_for k s @ emit_writes (MODE s) ok c)"
  by (simp add: emit_eq view_defs emit_prints_filter emit_writes_filter)

lemma outputs_update:
  "printed_for k (fail_counts_update f s) = printed_for k s"
  "printed_for k (pass_counts_update f s) = printed_for k s"
  "printed_for k (last_action_trade_update g s) = printed_for k s"
  "printed_for k (STATE_update h s) = printed_for k s"
  "written_for k (fail_counts_update f s) = written_for k s"
  "written_for k (pass_counts_update f s) = written_for k s"
  "written_for k (last_action_trade_update g s) = written_for k s"
  "written_for k (STATE_update h s) = written_for k s"
  by (simp_all add: printed_for_def written_for_def)

lemma disable_check_alt:
  "disable_check cfg ok n k pnls s =
     (if DISABLE_WINDOWS cfg \<le> fail_counts s k then
        (case emit ok (disable_cmd cfg k pnls) s of
           Raised e s1 \<Rightarrow> Raised e s1
         | Done s1 \<Rightarrow>
             Done (s1\<lparr>fail_counts := (fail_counts s1)(k := 0),
                      last_action_trade := (last_action_trade s1)(k := n)\<rparr>))
      else Done s)"
  by (simp add: disable_check_def disable_cmd_def)

lemma enable_check_alt:
  "enable_check cfg ok n k pnls s =
     (if ENABLE_WINDOWS cfg \<le> pass_counts s k then
        (case enable_weight cfg (compute_confidence pnls) of
           Inl e \<Rightarrow> Raised e s
         | Inr weight \<Rightarrow>
             (case emit ok (enable_cmd k weight) s of
                Raised e s1 \<Rightarrow> Raised e s1
              | Done s1 \<Rightarrow>
                  Done (s1\<lparr>pass_counts := (pass_counts s1)(k := 0),
                           last_action_trade := (last_action_trade s1)(k := n)\<rparr>)))
      else Done s)"
  by (simp add: enable_check_def enable_cmd_def split: sum.splits)

lemma disable_check_gate:
  "(view k (state_of (disable_check cfg ok n k pnls s)), raised (disable_check cfg ok n k pnls s)) =
   gate_disable cfg ok (MODE s) n k pnls (view k s)"
proof (cases "DISABLE_WINDOWS cfg \<le> fail_counts s k")
  case False
  then show ?thesis by (simp add: disable_check_alt gate_disable_def view_def)
next
  case True
  let ?c = "disable_cmd cfg k pnls"
  have k: "cmd_symbol ?c = k" by (simp add: disable_cmd_def)
  note ev = emit_view [OF k, of ok s] and er = emit_raised [of ok ?c s]
  show ?thesis
  proof (cases "emit ok ?c s")
    case (Done u)
    with ev er have vu: "view k u = (fail_counts s k, pass_counts s k, last_action_trade s k, STATE s k,
        printed_for k s @ emit_prints (MODE s) ok ?c, written_for k s @ emit_writes (MODE s) ok ?c)"
      and nf: "\<not> emit_fails (MODE s) ok ?c" by simp_all
    from vu have c: "pass_counts u k = pass_counts s k" "STATE u k = STATE s k"
      "printed_for k u = printed_for k s @ emit_prints (MODE s) ok ?c"
      "written_for k u = written_for k s @ emit_writes (MODE s) ok ?c"
      by (simp_all add: view_def)
    from True Done nf c show ?thesis
      by (simp add: disable_check_alt gate_disable_def view_def Let_def outputs_update)
  next
    case (Raised e u)
    with ev er have vu: "view k u = (fail_counts s k, pass_counts s k, last_action_trade s k, STATE s k,
        printed_for k s @ emit_prints (MODE s) ok ?c, written_for k s @ emit_writes (MODE s) ok ?c)"
      and f: "emit_fails (MODE s) ok ?c" by simp_all
    from True Raised f vu show ?thesis
      by (simp add: disable_check_alt gate_disable_def Let_def) (simp add: view_def Let_def)
  qed
qed


lemma enable_check_gate:
  "(view k (state_of (enable_check cfg ok n k pnls s)), raised (enable_check cfg ok n k pnls s)) =
   gate_enable cfg ok (MODE s) n k pnls (view k s)"
proof (cases "ENABLE_WINDOWS cfg \<le> pass_counts s k")
  case False
  then show ?thesis by (simp add: enable_check_alt gate_enable_def view_def)
next
  case True
  show ?thesis
  proof (cases "enable_weight cfg (compute_confidence pnls)")
    case (Inl x)
    with True show ?thesis by (simp add: enable_check_alt gate_enable_def view_def)
  next
    case (Inr w)
    let ?c = "enable_cmd k w"
    have k: "cmd_symbol ?c = k" by (simp add: enable_cmd_def)
    note ev = emit_view [OF k, of ok s] and er = emit_raised [of ok ?c s]
    show ?thesis
    proof (cases "emit ok ?c s")
      case (Done u)
      with ev er have vu: "view k u = (fail_counts s k, pass_counts s k, last_action_trade s k, STATE s k,
          printed_for k s @ emit_prints (MODE s) ok ?c, written_for k s @ emit_writes (MODE s) ok ?c)"
        and nf: "\<not> emit_fails (MODE s) ok ?c" by simp_all
      from vu have c: "fail_counts u k = fail_counts s k" "STATE u k = STATE s k"
        "printed_for k u = printed_for k s @ emit_prints (MODE s) ok ?c"
        "written_for k u = written_for k s @ emit_writes (MODE s) ok ?c"
        by (simp_all add: view_def)
      from True Inr Done nf c show ?thesis
        by (simp add: enable_check_alt gate_enable_def view_def Let_def outputs_update)
    next
      case (Raised e u)
      with ev er have vu: "view k u = (fail_counts s k, pass_counts s k, last_action_trade s k, STATE s k,
          printed_for k s @ emit_prints (MODE s) ok ?c, written_for k s @ emit_writes (MODE s) ok ?c)"
        and f: "emit_fails (MODE s) ok ?c" by simp_all
      from True Inr Raised f vu show ?thesis
        by (simp add: enable_check_alt gate_enable_def Let_def) (simp add: view_def Let_def)
    qed
  qed
qed

lemma track_symbol_gate:
  "view k (track_symbol cfg n k pnls s) = gate_track cfg (MODE s) n pnls (view k s)"
  by (simp add: track_symbol_def update_counts_def Let_def view_def gate_track_def outputs_update)

lemma eval_symbol_gate:
  "(view k (state_of (eval_symbol cfg ok n (k, pnls) s)), raised (eval_symbol cfg ok n (k, pnls) s)) =
   gate cfg ok (MODE s) n k pnls (view k s)"
proof -
  let ?t = "track_symbol cfg n k pnls s"
  let ?d = "disable_check cfg ok n k pnls ?t"
  have la: "fst (snd (snd (view k s))) = last_action_trade s k" by (simp add: view_def)
  have vt: "view k ?t = gate_track cfg (MODE s) n pnls (view k s)" by (rule track_symbol_gate)
  have gd: "(view k (state_of ?d), raised ?d) =
      gate_disable cfg ok (MODE s) n k pnls (gate_track cfg (MODE s) n pnls (view k s))"
    using disable_check_gate [of k cfg ok n pnls ?t] by (simp add: vt track_symbol_MODE)
  show ?thesis
  proof (cases "COOLDOWN cfg \<le> n - last_action_trade s k")
    case False
    then show ?thesis by (simp add: eval_symbol_def gate_def Let_def la vt)
  next
    case True
    show ?thesis
    proof (cases ?d)
      case (Raised e u)
      with gd have "gate_disable cfg ok (MODE s) n k pnls (gate_track cfg (MODE s) n pnls (view k s)) = (view k u, True)"
        by simp
      with True Raised show ?thesis by (simp add: eval_symbol_def gate_def Let_def la)
    next
      case (Done u)
      with gd have g: "gate_disable cfg ok (MODE s) n k pnls (gate_track cfg (MODE s) n pnls (view k s)) = (view k u, False)"
        by simp
      from Done disable_check_MODE [of cfg ok n k pnls ?t] have mu: "MODE u = MODE s"
        by (simp add: track_symbol_MODE)
      from enable_check_gate [of k cfg ok n pnls u] True Done g mu show ?thesis
        by (simp add: eval_symbol_def gate_def Let_def la)
    qed
  qed
qed

lemma emit_prints_cmd: "x \<in> set (emit_prints m ok c) \<Longrightarrow> printed_cmd x = c"
  by (auto simp: emit_prints_def split: if_splits)

lemma emit_writes_cmd: "y \<in> set (emit_writes m ok c) \<Longrightarrow> line_cmd y = c"
  by (auto simp: emit_writes_def split: if_splits)

lemma emit_prints_length: "length (emit_prints m ok c) \<le> 1"
  by (simp add: emit_prints_def)

lemma emit_writes_length: "length (emit_writes m ok c) \<le> 1"
  by (simp add: emit_writes_def)



lemma is_disable_cmds [simp]:
  "is_disable (disable_cmd cfg k pnls)" "\<not> is_disable (enable_cmd k w)"
  by (simp_all add: disable_cmd_def enable_cmd_def)

lemmas gate_all = gate_def gate_track_def gate_disable_def gate_enable_def Let_def

lemma gate_counters:
  "gate cfg ok m n k pnls (fc, pc, la, st, pr, wr) = ((fc', pc', la', st', pr', wr'), r) \<Longrightarrow>
   0 \<le> fc \<Longrightarrow> 0 \<le> pc \<Longrightarrow> fc = 0 \<or> pc = 0 \<Longrightarrow>
   0 \<le> fc' \<and> 0 \<le> pc' \<and> (fc' = 0 \<or> pc' = 0)"
  by (auto simp: gate_all split: if_splits sum.splits)

lemma gate_cooldown:
  "n - la < COOLDOWN cfg \<Longrightarrow>
   gate cfg ok m n k pnls (fc, pc, la, st, pr, wr) =
     (gate_track cfg m n pnls (fc, pc, la, st, pr, wr), False)"
  by (simp add: gate_def Let_def)

lemma gate_commands:
  "gate cfg ok m n k pnls (fc, pc, la, st, pr, wr) = ((fc', pc', la', st', pr', wr'), r) \<Longrightarrow>
   \<exists>X Y. pr' = pr @ X \<and> wr' = wr @ Y \<and>
     (\<forall>x\<in>set X. printed_cmd x = disable_cmd cfg k pnls \<or>
        (\<exists>w. enable_weight cfg (compute_confidence pnls) = Inr w \<and> printed_cmd x = enable_cmd k w)) \<and>
     (\<forall>y\<in>set Y. line_cmd y = disable_cmd cfg k pnls \<or>
        (\<exists>w. enable_weight cfg (compute_confidence pnls) = Inr w \<and> line_cmd y = enable_cmd k w))"
  by (auto simp: gate_all split: if_splits sum.splits dest: emit_prints_cmd emit_writes_cmd)

lemma gate_one_command:
  "gate cfg ok m n k pnls (fc, pc, la, st, pr, wr) = ((fc', pc', la', st', pr', wr'), r) \<Longrightarrow>
   1 \<le> DISABLE_WINDOWS cfg \<Longrightarrow> 1 \<le> ENABLE_WINDOWS cfg \<Longrightarrow>
   \<exists>X Y c. pr' = pr @ X \<and> wr' = wr @ Y \<and> length X \<le> 1 \<and> length Y \<le> 1 \<and>
     (\<forall>x\<in>set X. printed_cmd x = c) \<and> (\<forall>y\<in>set Y. line_cmd y = c)"
proof -
  assume g: "gate cfg ok m n k pnls (fc, pc, la, st, pr, wr) = ((fc', pc', la', st', pr', wr'), r)"
    and d: "1 \<le> DISABLE_WINDOWS cfg" and e: "1 \<le> ENABLE_WINDOWS cfg"
  from g d e have
    "(pr' = pr \<and> wr' = wr) \<or>
     (\<exists>c. pr' = pr @ emit_prints m ok c \<and> wr' = wr @ emit_writes m ok c)"
    by (auto simp: gate_all split: if_splits sum.splits)
  then show ?thesis
  proof (elim disjE conjE exE)
    assume "pr' = pr" "wr' = wr"
    then have "pr' = pr @ [] \<and> wr' = wr @ [] \<and> length ([] :: printed list) \<le> 1 \<and>
      length ([] :: log_line list) \<le> 1 \<and>
      (\<forall>x\<in>set []. printed_cmd x = disable_cmd cfg k pnls) \<and>
      (\<forall>y\<in>set []. line_cmd y = disable_cmd cfg k pnls)"
      by simp
    then show ?thesis by blast
  next
    fix c
    assume "pr' = pr @ emit_prints m ok c" "wr' = wr @ emit_writes m ok c"
    then have "pr' = pr @ emit_prints m ok c \<and> wr' = wr @ emit_writes m ok c \<and>
      length (emit_prints m ok c) \<le> 1 \<and> length (emit_writes m ok c) \<le> 1 \<and>
      (\<forall>x\<in>set (emit_prints m ok c). printed_cmd x = c) \<and>
      (\<forall>y\<in>set (emit_writes m ok c). line_cmd y = c)"
      using emit_prints_length [of m ok c] emit_writes_length [of m ok c]
      by (simp add: emit_prints_cmd emit_writes_cmd)
    then show ?thesis by blast
  qed
qed



text \<open>The gate applied to the view of a state, with the components of the result named.\<close>

lemma eval_symbol_gateE:
  obtains fc' pc' la' st' pr' wr' r where
    "gate cfg ok (MODE s) n k pnls
       (fail_counts s k, pass_counts s k, last_action_trade s k, STATE s k,
        printed_for k s, written_for k s) = ((fc', pc', la', st', pr', wr'), r)"
    and "view k (state_of (eval_symbol cfg ok n (k, pnls) s)) = (fc', pc', la', st', pr', wr')"
    and "raised (eval_symbol cfg ok n (k, pnls) s) = r"
proof -
  obtain v r where g: "gate cfg ok (MODE s) n k pnls (view k s) = (v, r)"
    by (cases "gate cfg ok (MODE s) n k pnls (view k s)")
  obtain fc' pc' la' st' pr' wr' where v: "v = (fc', pc', la', st', pr', wr')"
    by (cases v)
  from eval_symbol_gate [of k cfg ok n pnls s] g v
  have "view k (state_of (eval_symbol cfg ok n (k, pnls) s)) = (fc', pc', la', st', pr', wr')"
    and "raised (eval_symbol cfg ok n (k, pnls) s) = r" by simp_all
  moreover from g v have "gate cfg ok (MODE s) n k pnls
       (fail_counts s k, pass_counts s k, last_action_trade s k, STATE s k,
        printed_for k s, written_for k s) = ((fc', pc', la', st', pr', wr'), r)"
    by (simp add: view_def)
  ultimately show thesis using that by blast
qed

lemma viewD:
  "view k s = (fc, pc, la, st, pr, wr) \<Longrightarrow>
   fail_counts s k = fc \<and> pass_counts s k = pc \<and> last_action_trade s k = la \<and> STATE s k = st \<and>
   printed_for k s = pr \<and> written_for k s = wr"
  by (simp add: view_def)

lemma counters_ok_view: "view k s' = view k s \<Longrightarrow> counters_ok s' k = counters_ok s k"
  by (simp add: view_def counters_ok_def)


lemma new_outputs_view:
  "view k s' = view k s \<Longrightarrow> new_printed k s s' = [] \<and> new_written k s s' = []"
  by (simp add: view_def new_printed_def new_written_def)

lemma body_counters:
  assumes "counters_ok s k"
  shows "counters_ok (state_of (eval_symbol cfg ok n (k, pnls) s)) k"
proof -
  obtain fc' pc' la' st' pr' wr' r where
    g: "gate cfg ok (MODE s) n k pnls
       (fail_counts s k, pass_counts s k, last_action_trade s k, STATE s k,
        printed_for k s, written_for k s) = ((fc', pc', la', st', pr', wr'), r)"
    and v: "view k (state_of (eval_symbol cfg ok n (k, pnls) s)) = (fc', pc', la', st', pr', wr')"
    by (rule eval_symbol_gateE)
  from gate_counters [OF g] assms have "0 \<le> fc' \<and> 0 \<le> pc' \<and> (fc' = 0 \<or> pc' = 0)"
    by (simp add: counters_ok_def)
  with viewD [OF v] show ?thesis by (simp add: counters_ok_def)
qed

lemma analyze_counters:
  assumes "counters_ok s k"
  shows "counters_ok (state_of (analyze cfg fl ok src s)) k"
proof -
  let ?s' = "state_of (analyze cfg fl ok src s)"
  from analyze_view [of k cfg fl ok src s] show ?thesis
  proof
    assume "view k ?s' = view k s"
    from counters_ok_view [OF this] assms show ?thesis by simp
  next
    assume "\<exists>pnls. window_pnls cfg fl src k = Some pnls \<and>
      view k ?s' = view k (state_of (eval_symbol cfg ok (int (length (load_trades src))) (k, pnls) s))"
    then obtain pnls where
      v: "view k ?s' = view k (state_of (eval_symbol cfg ok (int (length (load_trades src))) (k, pnls) s))"
      by blast
    from counters_ok_view [OF v] body_counters [OF assms] show ?thesis by simp
  qed
qed




lemma eval_buckets_append:
  "eval_buckets cfg ok n (xs @ ys) s =
     (case eval_buckets cfg ok n xs s of
        Raised e s1 \<Rightarrow> Raised e s1
      | Done s1 \<Rightarrow> eval_buckets cfg ok n ys s1)"
  by (induction xs arbitrary: s) (simp_all split: result.splits)

lemma raised_result: "raised r \<Longrightarrow> \<exists>e. r = Raised e (state_of r)"
  by (cases r) simp_all

subsection \<open>Ticks that get as far as a symbol\<close>



text \<open>A tick that returns has got as far as every symbol of its window.\<close>

lemma eval_buckets_prefix:
  "\<not> raised (eval_buckets cfg ok n (xs @ ys) s) \<Longrightarrow> \<not> raised (eval_buckets cfg ok n xs s)"
  by (cases "eval_buckets cfg ok n xs s") (simp_all add: eval_buckets_append)

lemma returns_reaches:
  assumes "window_pnls cfg fl src k = Some pnls" and "\<not> raised (analyze cfg fl ok src s)"
  shows "reaches cfg fl ok k src s"
proof -
  from assms(1) have nw: "\<not> int (length (load_trades src)) < WINDOW cfg"
    by (auto simp: window_pnls_def Let_def split: if_splits)
  with assms(1) obtain bs where bs: "build_buckets fl (last_window (WINDOW cfg) (load_trades src)) [] = Inr bs"
    and m: "map_of bs k = Some pnls"
    by (auto simp: window_pnls_def Let_def split: sum.splits)
  from m have k: "k \<in> fst ` set bs" by (metis map_of_eq_None_iff option.distinct(1))
  from nw bs assms(2) have "\<not> raised (eval_buckets cfg ok (int (length (load_trades src))) bs s)"
    by (simp add: analyze_def)
  then have "\<not> raised (eval_buckets cfg ok (int (length (load_trades src)))
      (takeWhile (\<lambda>b. fst b \<noteq> k) bs @ dropWhile (\<lambda>b. fst b \<noteq> k) bs) s)" by simp
  from eval_buckets_prefix [OF this] nw bs k show ?thesis by (simp add: reaches_def)
qed



subsection \<open>Evaluating the examples\<close>

lemmas run_defs = analyze_def load_trades_def last_window_def eval_defs is_failing_def
  survival_of_def edge_of_def mean_def compute_confidence_def pstdev_def
  ws_round_def broadcast_def init_state_def one_client_def
  float_lit_def trade_def writable_def unwritable_def reachable_def cfg_of_def

lemmas io_defs = analyze_def load_trades_def last_window_def eval_defs is_failing_def
  survival_of_def edge_of_def ws_round_def broadcast_def init_state_def one_client_def
  float_lit_def trade_def writable_def unwritable_def reachable_def cfg_of_def

lemma steady_stats:
  "mean [1, 1, 1, 1, - 2] = 2 / 5" "pstdev [1, 1, 1, 1, - 2] = 6 / 5"
  "compute_confidence [1, 1, 1, 1, - 2] = 1 / 3"
proof -
  have sq: "sqrt (36 / 25) = 6 / 5"
    by (rule real_sqrt_unique) (simp_all add: power2_eq_square)
  show m: "mean [1, 1, 1, 1, - 2] = 2 / 5" by (simp add: mean_def)
  show p: "pstdev [1, 1, 1, 1, - 2] = 6 / 5" by (simp add: pstdev_def m power2_eq_square sq)
  show "compute_confidence [1, 1, 1, 1, - 2] = 1 / 3" by (simp add: compute_confidence_def m p)
qed

lemma winning_stats:
  "mean [3, 3, 3, 3, 1] = 13 / 5" "compute_confidence [3, 3, 3, 3, 1] = 13 / 4"
proof -
  have sq: "sqrt (16 / 25) = 4 / 5"
    by (rule real_sqrt_unique) (simp_all add: power2_eq_square)
  show m: "mean [3, 3, 3, 3, 1] = 13 / 5" by (simp add: mean_def)
  have p: "pstdev [3, 3, 3, 3, 1] = 4 / 5" by (simp add: pstdev_def m power2_eq_square sq)
  show "compute_confidence [3, 3, 3, 3, 1] = 13 / 4" by (simp add: compute_confidence_def m p)
qed

lemma losing_stats:
  "mean [- 2, - 2, - 2, - 2, - 2] = - 2" "compute_confidence [- 2, - 2, - 2, - 2, - 2] = 2 * 10 ^ 9"
  by (simp_all add: mean_def compute_confidence_def pstdev_def)

lemmas stats = winning_stats losing_stats


subsection \<open>The two counters of a symbol\<close>

lemma ws_loop_counters:
  "counters_ok s k \<Longrightarrow> counters_ok (loop_state (ws_loop cfg fl ok sok me srcs s)) k"
proof (induction srcs arbitrary: s)
  case Nil
  then show ?case by simp
next
  case (Cons src srcs)
  let ?r = "ws_round cfg fl ok sok me src s"
  from ws_round_view [of k cfg fl ok sok me src s]
  have "counters_ok (loop_state ?r) k = counters_ok (state_of (analyze cfg fl ok src s)) k"
    by (rule counters_ok_view)
  with analyze_counters [OF Cons.prems] have c: "counters_ok (loop_state ?r) k" by simp
  show ?case
  proof (cases ?r)
    case (Continue s1)
    with c Cons.IH [of s1] show ?thesis by simp
  next
    case (Stopped s1)
    with c show ?thesis by simp
  qed
qed

lemma update_counts_exactly_one:
  "counters_ok s k \<Longrightarrow>
   (fail_counts (update_counts f k s) k = 0) \<noteq> (pass_counts (update_counts f k s) k = 0)"
  by (auto simp: counters_ok_def update_counts_def)

lemma gate_action_resets:
  "gate cfg ok m n k pnls (fc, pc, la, st, pr, wr) = ((fc', pc', la', st', pr', wr'), r) \<Longrightarrow>
   1 \<le> DISABLE_WINDOWS cfg \<Longrightarrow> 1 \<le> ENABLE_WINDOWS cfg \<Longrightarrow>
   pr' \<noteq> pr \<Longrightarrow> m = ''OBSERVE'' \<or> wr' \<noteq> wr \<Longrightarrow>
   fc' = 0 \<and> pc' = 0 \<and> la' = n"
  by (auto simp: gate_all emit_prints_def emit_writes_def emit_fails_def split: if_splits sum.splits)

lemma tick_action_resets:
  assumes "1 \<le> DISABLE_WINDOWS cfg" and "1 \<le> ENABLE_WINDOWS cfg"
    and "new_printed k s (state_of (analyze cfg fl ok src s)) \<noteq> []"
    and "MODE s = ''OBSERVE'' \<or> new_written k s (state_of (analyze cfg fl ok src s)) \<noteq> []"
  shows "fail_counts (state_of (analyze cfg fl ok src s)) k = 0 \<and>
     pass_counts (state_of (analyze cfg fl ok src s)) k = 0 \<and>
     last_action_trade (state_of (analyze cfg fl ok src s)) k = int (length (load_trades src))"
proof -
  let ?s' = "state_of (analyze cfg fl ok src s)"
  let ?n = "int (length (load_trades src))"
  from analyze_view [of k cfg fl ok src s] show ?thesis
  proof
    assume "view k ?s' = view k s"
    from new_outputs_view [OF this] assms(3) show ?thesis by simp
  next
    assume "\<exists>pnls. window_pnls cfg fl src k = Some pnls \<and>
      view k ?s' = view k (state_of (eval_symbol cfg ok ?n (k, pnls) s))"
    then obtain pnls where
      e: "view k ?s' = view k (state_of (eval_symbol cfg ok ?n (k, pnls) s))" by blast
    obtain fc' pc' la' st' pr' wr' r where
      g: "gate cfg ok (MODE s) ?n k pnls
         (fail_counts s k, pass_counts s k, last_action_trade s k, STATE s k,
          printed_for k s, written_for k s) = ((fc', pc', la', st', pr', wr'), r)"
      and v: "view k (state_of (eval_symbol cfg ok ?n (k, pnls) s)) = (fc', pc', la', st', pr', wr')"
      by (rule eval_symbol_gateE)
    from e v have "view k ?s' = (fc', pc', la', st', pr', wr')" by simp
    note d = viewD [OF this]
    from d assms(3) have p: "pr' \<noteq> printed_for k s" by (auto simp: new_printed_def)
    from d assms(4) have w: "MODE s = ''OBSERVE'' \<or> wr' \<noteq> written_for k s"
      by (auto simp: new_written_def)
    from gate_action_resets [OF g assms(1,2) p w] d show ?thesis by simp
  qed
qed

text \<open>
  Claim C1, as amended. The two counters of a symbol are never negative and never both
  non-zero: this holds for the initial globals and is kept by every tick, whether it
  returns or raises, and by any number of rounds of the loop. Right after the update of
  lines 110 to 115 exactly one of the two is zero. And with both thresholds at least 1,
  right after a tick has carried out a DISABLE or an ENABLE of the symbol, both are zero:
  the tick has printed a command about the symbol and, outside OBSERVE mode, has written
  it, so that \<open>emit\<close> has returned and lines 136 or 145 have reset the counter.
\<close>

theorem counters_never_both_nonzero:
  "counters_ok (init_state m) k \<and>
   (counters_ok s k \<longrightarrow>
      counters_ok (state_of (analyze cfg py_float append_ok src s)) k \<and>
      counters_ok (loop_state (ws_loop cfg py_float append_ok send_ok me srcs s)) k \<and>
      (fail_counts (update_counts f k s) k = 0) \<noteq> (pass_counts (update_counts f k s) k = 0)) \<and>
   (1 \<le> DISABLE_WINDOWS cfg \<and> 1 \<le> ENABLE_WINDOWS cfg \<and>
    new_printed k s (state_of (analyze cfg py_float append_ok src s)) \<noteq> [] \<and>
    (MODE s = ''OBSERVE'' \<or> new_written k s (state_of (analyze cfg py_float append_ok src s)) \<noteq> []) \<longrightarrow>
      fail_counts (state_of (analyze cfg py_float append_ok src s)) k = 0 \<and>
      pass_counts (state_of (analyze cfg py_float append_ok src s)) k = 0)"
proof -
  have 1: "counters_ok (init_state m) k" by (simp add: counters_ok_def init_state_def)
  have 2: "counters_ok s k \<longrightarrow>
      counters_ok (state_of (analyze cfg py_float append_ok src s)) k \<and>
      counters_ok (loop_state (ws_loop cfg py_float append_ok send_ok me srcs s)) k \<and>
      (fail_counts (update_counts f k s) k = 0) \<noteq> (pass_counts (update_counts f k s) k = 0)"
    by (simp add: analyze_counters ws_loop_counters update_counts_exactly_one)
  have 3: "fail_counts (state_of (analyze cfg py_float append_ok src s)) k = 0 \<and>
      pass_counts (state_of (analyze cfg py_float append_ok src s)) k = 0"
    if "1 \<le> DISABLE_WINDOWS cfg \<and> 1 \<le> ENABLE_WINDOWS cfg \<and>
      new_printed k s (state_of (analyze cfg py_float append_ok src s)) \<noteq> [] \<and>
      (MODE s = ''OBSERVE'' \<or> new_written k s (state_of (analyze cfg py_float append_ok src s)) \<noteq> [])"
    using that tick_action_resets [of cfg k s py_float append_ok src] by blast
  from 1 2 3 show ?thesis by blast
qed

theorem counters_never_both_nonzero_witness:
  "counters_ok (init_state ''ACT'') (Some ''A'') \<and>
   counters_ok (state_of (analyze (cfg_of 3 5) float_lit writable (Some losing) (init_state ''ACT'')))
     (Some ''A'') \<and>
   fail_counts (state_of (analyze (cfg_of 3 5) float_lit writable (Some losing) (init_state ''ACT'')))
     (Some ''A'') = 1 \<and>
   new_written (Some ''A'') (init_state ''ACT'')
       (state_of (analyze (cfg_of 1 5) float_lit writable (Some losing) (init_state ''ACT''))) =
     [ACT_line (DISABLE_ENGINE (Some ''A'') (- 3) (2 * 10 ^ 9))] \<and>
   fail_counts (state_of (analyze (cfg_of 1 5) float_lit writable (Some losing) (init_state ''ACT'')))
     (Some ''A'') = 0 \<and>
   pass_counts (state_of (analyze (cfg_of 1 5) float_lit writable (Some losing) (init_state ''ACT'')))
     (Some ''A'') = 0 \<and>
   new_printed (Some ''A'') (init_state ''OBSERVE'')
       (state_of (analyze (cfg_of 3 1) float_lit writable (Some winning) (init_state ''OBSERVE''))) =
     [OBSERVE_msg (ENABLE_ENGINE (Some ''A'') (1 / 2))] \<and>
   fail_counts (state_of (analyze (cfg_of 3 1) float_lit writable (Some winning) (init_state ''OBSERVE'')))
     (Some ''A'') = 0 \<and>
   pass_counts (state_of (analyze (cfg_of 3 1) float_lit writable (Some winning) (init_state ''OBSERVE'')))
     (Some ''A'') = 0"
proof -
  let ?d = "state_of (analyze (cfg_of 1 5) float_lit writable (Some losing) (init_state ''ACT''))"
  let ?e = "state_of (analyze (cfg_of 3 1) float_lit writable (Some winning) (init_state ''OBSERVE''))"
  have f: "fail_counts (state_of (analyze (cfg_of 3 5) float_lit writable (Some losing) (init_state ''ACT'')))
     (Some ''A'') = 1"
    by (simp add: run_defs losing_def)
  note t = counters_never_both_nonzero [of "''ACT''" "Some ''A''" "init_state ''ACT''" "cfg_of 3 5"
      float_lit writable "Some losing"]
  from t have i: "counters_ok (init_state ''ACT'') (Some ''A'')" by blast
  with t have c: "counters_ok (state_of (analyze (cfg_of 3 5) float_lit writable (Some losing)
      (init_state ''ACT''))) (Some ''A'')" by blast
  have th: "1 \<le> DISABLE_WINDOWS (cfg_of 1 5) \<and> 1 \<le> ENABLE_WINDOWS (cfg_of 1 5)"
    "1 \<le> DISABLE_WINDOWS (cfg_of 3 1) \<and> 1 \<le> ENABLE_WINDOWS (cfg_of 3 1)"
    by (simp_all add: cfg_of_def)
  have dp: "new_printed (Some ''A'') (init_state ''ACT'') ?d =
      [ACT_msg (DISABLE_ENGINE (Some ''A'') (- 3) (2 * 10 ^ 9))]"
    and dw: "new_written (Some ''A'') (init_state ''ACT'') ?d =
      [ACT_line (DISABLE_ENGINE (Some ''A'') (- 3) (2 * 10 ^ 9))]"
    by (simp_all add: new_printed_def new_written_def printed_for_def written_for_def io_defs
        losing_def stats py_round_def)
  have ep: "new_printed (Some ''A'') (init_state ''OBSERVE'') ?e =
      [OBSERVE_msg (ENABLE_ENGINE (Some ''A'') (1 / 2))]"
    by (simp add: new_printed_def printed_for_def io_defs winning_def stats py_round_def
        enable_weight_def)
  have mo: "MODE (init_state ''OBSERVE'') = ''OBSERVE''" by (simp add: init_state_def)
  from counters_never_both_nonzero [of "''ACT''" "Some ''A''" "init_state ''ACT''" "cfg_of 1 5"
      float_lit writable "Some losing"] th(1) dp dw
  have d0: "fail_counts ?d (Some ''A'') = 0 \<and> pass_counts ?d (Some ''A'') = 0" by simp
  from counters_never_both_nonzero [of "''OBSERVE''" "Some ''A''" "init_state ''OBSERVE''" "cfg_of 3 1"
      float_lit writable "Some winning"] th(2) ep mo
  have e0: "fail_counts ?e (Some ''A'') = 0 \<and> pass_counts ?e (Some ''A'') = 0" by simp
  from i c f dw d0 ep e0 show ?thesis by blast
qed

text \<open>
  Claim C1 as stated fails: three rounds on five losing trades, with the thresholds 3 and 5
  and no cooldown, write one DISABLE, after which both counters of A are zero.
\<close>

theorem both_counters_zero_after_disable:
  "fail_counts (loop_state (ws_loop (cfg_of 3 5) float_lit writable reachable 0
      [Some losing, Some losing, Some losing] (one_client ''ACT''))) (Some ''A'') = 0 \<and>
   pass_counts (loop_state (ws_loop (cfg_of 3 5) float_lit writable reachable 0
      [Some losing, Some losing, Some losing] (one_client ''ACT''))) (Some ''A'') = 0 \<and>
   cmd_file (loop_state (ws_loop (cfg_of 3 5) float_lit writable reachable 0
      [Some losing, Some losing, Some losing] (one_client ''ACT''))) =
     [ACT_line (DISABLE_ENGINE (Some ''A'') (- 3) (2 * 10 ^ 9))]"
  by (simp add: run_defs losing_def py_round_def)

subsection \<open>A tick with too few records\<close>

lemma broadcast_to_delivered:
  "delivered (broadcast_to sok d cs s) = delivered s @ map (\<lambda>c. (c, d)) (filter sok cs)"
  by (induction cs arbitrary: s) simp_all

lemma analyze_short: "int (length (load_trades src)) < WINDOW cfg \<Longrightarrow> analyze cfg fl ok src s = Done s"
  by (simp add: analyze_def)

text \<open>
  Claim C2, as amended. A tick that finds fewer records than the window evaluates nothing:
  \<open>analyze\<close> returns with the globals, the command file and the console as they were.
  The round of the loop goes on to the broadcast all the same: every client whose send
  succeeds is sent the mode and the unchanged \<open>STATE\<close>, and the broadcast changes neither
  counters nor \<open>STATE\<close> nor the outputs.
\<close>

theorem short_history_skips_evaluation:
  assumes "int (length (load_trades src)) < WINDOW cfg"
  shows
    "analyze cfg py_float append_ok src s = Done s \<and>
     ws_round cfg py_float append_ok send_ok me src s =
       Continue (broadcast send_ok (MODE s, STATE s) s) \<and>
     delivered (broadcast send_ok (MODE s, STATE s) s) =
       delivered s @ map (\<lambda>c. (c, MODE s, STATE s)) (filter send_ok (CLIENTS s)) \<and>
     fail_counts (broadcast send_ok (MODE s, STATE s) s) = fail_counts s \<and>
     pass_counts (broadcast send_ok (MODE s, STATE s) s) = pass_counts s \<and>
     last_action_trade (broadcast send_ok (MODE s, STATE s) s) = last_action_trade s \<and>
     STATE (broadcast send_ok (MODE s, STATE s) s) = STATE s \<and>
     cmd_file (broadcast send_ok (MODE s, STATE s) s) = cmd_file s \<and>
     console (broadcast send_ok (MODE s, STATE s) s) = console s"
  using assms
  by (simp add: analyze_short ws_round_def broadcast_def broadcast_to_delivered broadcast_to_fields)

theorem short_history_skips_evaluation_witness:
  "int (length (load_trades (Some [trade ''A'' ''1.0'']))) < WINDOW (cfg_of 3 5) \<and>
   analyze (cfg_of 3 5) float_lit writable (Some [trade ''A'' ''1.0'']) (one_client ''ACT'') =
     Done (one_client ''ACT'') \<and>
   delivered (broadcast reachable (MODE (one_client ''ACT''), STATE (one_client ''ACT'')) (one_client ''ACT'')) =
     [(0, MODE (one_client ''ACT''), STATE (one_client ''ACT''))]"
proof -
  have h: "int (length (load_trades (Some [trade ''A'' ''1.0'']))) < WINDOW (cfg_of 3 5)"
    by (simp add: load_trades_def cfg_of_def)
  from short_history_skips_evaluation [OF h, of float_lit writable "one_client ''ACT''" reachable] h
  show ?thesis by (simp add: one_client_def init_state_def reachable_def)
qed

text \<open>
  Claim C2 as stated fails: with one record and a window of five, the round still delivers
  a message to the connected client.
\<close>

theorem skipped_tick_is_broadcast:
  "int (length (load_trades (Some [trade ''A'' ''1.0'']))) < WINDOW (cfg_of 3 5) \<and>
   delivered (one_client ''ACT'') = [] \<and>
   map fst (delivered (loop_state (ws_round (cfg_of 3 5) float_lit writable reachable 0
      (Some [trade ''A'' ''1.0'']) (one_client ''ACT'')))) = [0]"
  by (simp add: load_trades_def cfg_of_def one_client_def init_state_def ws_round_def analyze_def
      broadcast_def reachable_def)

subsection \<open>A failing append to the command file\<close>








subsection \<open>An unavailable or malformed trade source\<close>

text \<open>
  Claim C4, as amended. When the trade source cannot be opened or read, \<open>load_trades\<close>
  gives no records, and the tick changes nothing and raises nothing, for every window
  size; the round goes on to the broadcast. Records that were read are handed on as they
  are, whatever their fields hold.
\<close>

theorem unavailable_source_skips_tick:
  "load_trades None = [] \<and>
   analyze cfg py_float append_ok None s = Done s \<and>
   ws_round cfg py_float append_ok send_ok me None s =
     Continue (broadcast send_ok (MODE s, STATE s) s)"
  by (simp add: load_trades_def analyze_def ws_round_def last_window_def)

text \<open>
  Claim C4 as stated fails: a record in the window whose \<open>total_pnl\<close> is no number, or
  is missing, makes the tick raise, and the loop stops.
\<close>

theorem malformed_record_raises:
  "analyze (cfg_of 3 5) float_lit writable (Some bad_pnl) (one_client ''ACT'') =
     Raised ValueError (one_client ''ACT'') \<and>
   analyze (cfg_of 3 5) float_lit writable (Some no_pnl) (one_client ''ACT'') =
     Raised KeyError (one_client ''ACT'') \<and>
   stopped (ws_round (cfg_of 3 5) float_lit writable reachable 0 (Some bad_pnl) (one_client ''ACT'')) \<and>
   stopped (ws_round (cfg_of 3 5) float_lit writable reachable 0 (Some no_pnl) (one_client ''ACT''))"
proof -
  have b: "analyze (cfg_of 3 5) float_lit writable (Some bad_pnl) (one_client ''ACT'') =
     Raised ValueError (one_client ''ACT'')"
    by (simp add: analyze_def load_trades_def last_window_def bad_pnl_def trade_def float_lit_def
        cfg_of_def)
  have n: "analyze (cfg_of 3 5) float_lit writable (Some no_pnl) (one_client ''ACT'') =
     Raised KeyError (one_client ''ACT'')"
    by (simp add: analyze_def load_trades_def last_window_def no_pnl_def trade_def float_lit_def
        cfg_of_def)
  from b n show ?thesis by (simp add: ws_round_def)
qed

subsection \<open>Cooldown\<close>





subsection \<open>The confidence\<close>






subsection \<open>Hysteresis\<close>
















subsection \<open>Mode gating\<close>

lemma emit_observe:
  "MODE s = ''OBSERVE'' \<Longrightarrow> emit ok c s = Done (s\<lparr>console := console s @ [OBSERVE_msg c]\<rparr>)"
  by (simp add: emit_def)

lemma disable_check_observe:
  "MODE s = ''OBSERVE'' \<Longrightarrow> cmd_file (state_of (disable_check cfg ok n k pnls s)) = cmd_file s"
  by (simp add: disable_check_def emit_observe)

lemma enable_check_observe:
  "MODE s = ''OBSERVE'' \<Longrightarrow> cmd_file (state_of (enable_check cfg ok n k pnls s)) = cmd_file s"
  by (simp add: enable_check_def emit_observe split: sum.splits)

lemma eval_symbol_observe:
  assumes "MODE s = ''OBSERVE''"
  shows "cmd_file (state_of (eval_symbol cfg ok n b s)) = cmd_file s"
proof -
  let ?t = "track_symbol cfg n (fst b) (snd b) s"
  have mt: "MODE ?t = ''OBSERVE''" using assms by (simp add: track_symbol_MODE)
  have ct: "cmd_file ?t = cmd_file s" by (simp add: track_symbol_outputs)
  note d = disable_check_observe [OF mt, of cfg ok n "fst b" "snd b"]
  show ?thesis
  proof (cases "disable_check cfg ok n (fst b) (snd b) ?t")
    case (Raised e u)
    with d ct show ?thesis by (simp add: eval_symbol_def Let_def)
  next
    case (Done u)
    with d ct have cu: "cmd_file u = cmd_file s" by simp
    from Done disable_check_MODE [of cfg ok n "fst b" "snd b" ?t] mt have "MODE u = ''OBSERVE''"
      by simp
    from enable_check_observe [OF this, of cfg ok n "fst b" "snd b"] Done cu ct show ?thesis
      by (simp add: eval_symbol_def Let_def)
  qed
qed

lemma eval_buckets_observe:
  "MODE s = ''OBSERVE'' \<Longrightarrow> cmd_file (state_of (eval_buckets cfg ok n bs s)) = cmd_file s"
proof (induction bs arbitrary: s)
  case Nil
  show ?case by simp
next
  case (Cons b bs)
  note c = eval_symbol_observe [OF Cons.prems, of cfg ok n b]
  show ?case
  proof (cases "eval_symbol cfg ok n b s")
    case (Raised e s1)
    with c show ?thesis by simp
  next
    case (Done s1)
    with eval_symbol_MODE [of cfg ok n b s] Cons.prems have "MODE s1 = ''OBSERVE''" by simp
    from Cons.IH [OF this] Done c show ?thesis by simp
  qed
qed

lemma analyze_observe:
  "MODE s = ''OBSERVE'' \<Longrightarrow> cmd_file (state_of (analyze cfg fl ok src s)) = cmd_file s"
  by (simp add: analyze_def Let_def eval_buckets_observe split: sum.splits)

lemma ws_loop_observe:
  "MODE s = ''OBSERVE'' \<Longrightarrow> cmd_file (loop_state (ws_loop cfg fl ok sok me srcs s)) = cmd_file s"
proof (induction srcs arbitrary: s)
  case Nil
  show ?case by simp
next
  case (Cons src srcs)
  let ?r = "ws_round cfg fl ok sok me src s"
  have c: "cmd_file (loop_state ?r) = cmd_file s"
    using Cons.prems by (simp add: ws_round_cmd_file analyze_observe)
  have m: "MODE (loop_state ?r) = ''OBSERVE''"
    using Cons.prems by (simp add: ws_round_MODE)
  show ?case
  proof (cases ?r)
    case (Continue s1)
    with c m Cons.IH [of s1] show ?thesis by simp
  next
    case (Stopped s1)
    with c show ?thesis by simp
  qed
qed

text \<open>
  Claim C8. While the mode is OBSERVE, no decision writes the command file: \<open>emit\<close>
  returns without raising and leaves the file as it was, and a whole tick and any number of
  rounds of the loop leave it as it was too, whether they return or raise, whatever the
  file system would do with a write.
\<close>

theorem observe_never_writes:
  "MODE s = ''OBSERVE'' \<Longrightarrow>
   \<not> raised (emit append_ok cmd s) \<and>
   cmd_file (state_of (emit append_ok cmd s)) = cmd_file s \<and>
   cmd_file (state_of (analyze cfg py_float append_ok src s)) = cmd_file s \<and>
   cmd_file (loop_state (ws_loop cfg py_float append_ok send_ok me srcs s)) = cmd_file s"
  by (simp add: emit_observe analyze_observe ws_loop_observe)

theorem observe_never_writes_witness:
  "MODE (init_state ''OBSERVE'') = ''OBSERVE'' \<and>
   console (state_of (analyze (cfg_of 1 1) float_lit unwritable (Some losing) (init_state ''OBSERVE'')))
     = [OBSERVE_msg (DISABLE_ENGINE (Some ''A'') (- 3) (2 * 10 ^ 9))] \<and>
   cmd_file (state_of (analyze (cfg_of 1 1) float_lit unwritable (Some losing) (init_state ''OBSERVE''))) = []"
proof -
  have m: "MODE (init_state ''OBSERVE'') = ''OBSERVE''" by (simp add: init_state_def)
  have c: "console (state_of (analyze (cfg_of 1 1) float_lit unwritable (Some losing) (init_state ''OBSERVE'')))
     = [OBSERVE_msg (DISABLE_ENGINE (Some ''A'') (- 3) (2 * 10 ^ 9))]"
    by (simp add: run_defs losing_def py_round_def)
  from observe_never_writes [OF m, of unwritable cmd "cfg_of 1 1" float_lit "Some losing"] m c
  show ?thesis by (simp add: init_state_def)
qed

subsection \<open>The weight of an ENABLE\<close>

lemma body_commands:
  "\<exists>X Y. printed_for k (state_of (eval_symbol cfg ok n (k, pnls) s)) = printed_for k s @ X \<and>
     written_for k (state_of (eval_symbol cfg ok n (k, pnls) s)) = written_for k s @ Y \<and>
     (\<forall>x\<in>set X. printed_cmd x = disable_cmd cfg k pnls \<or>
        (\<exists>w. enable_weight cfg (compute_confidence pnls) = Inr w \<and> printed_cmd x = enable_cmd k w)) \<and>
     (\<forall>y\<in>set Y. line_cmd y = disable_cmd cfg k pnls \<or>
        (\<exists>w. enable_weight cfg (compute_confidence pnls) = Inr w \<and> line_cmd y = enable_cmd k w))"
proof -
  obtain fc' pc' la' st' pr' wr' r where
    g: "gate cfg ok (MODE s) n k pnls
       (fail_counts s k, pass_counts s k, last_action_trade s k, STATE s k,
        printed_for k s, written_for k s) = ((fc', pc', la', st', pr', wr'), r)"
    and v: "view k (state_of (eval_symbol cfg ok n (k, pnls) s)) = (fc', pc', la', st', pr', wr')"
    by (rule eval_symbol_gateE)
  from gate_commands [OF g] viewD [OF v] show ?thesis by simp
qed

lemma tick_commands:
  "\<exists>X Y. printed_for k (state_of (analyze cfg fl ok src s)) = printed_for k s @ X \<and>
     written_for k (state_of (analyze cfg fl ok src s)) = written_for k s @ Y \<and>
     (X = [] \<and> Y = [] \<or>
      (\<exists>pnls. window_pnls cfg fl src k = Some pnls \<and>
        (\<forall>x\<in>set X. printed_cmd x = disable_cmd cfg k pnls \<or>
           (\<exists>w. enable_weight cfg (compute_confidence pnls) = Inr w \<and> printed_cmd x = enable_cmd k w)) \<and>
        (\<forall>y\<in>set Y. line_cmd y = disable_cmd cfg k pnls \<or>
           (\<exists>w. enable_weight cfg (compute_confidence pnls) = Inr w \<and> line_cmd y = enable_cmd k w))))"
  using analyze_view [of k cfg fl ok src s]
proof
  assume "view k (state_of (analyze cfg fl ok src s)) = view k s"
  then have "printed_for k (state_of (analyze cfg fl ok src s)) = printed_for k s @ [] \<and>
     written_for k (state_of (analyze cfg fl ok src s)) = written_for k s @ []"
    by (simp add: view_def)
  then show ?thesis by blast
next
  assume "\<exists>q. window_pnls cfg fl src k = Some q \<and>
    view k (state_of (analyze cfg fl ok src s)) =
    view k (state_of (eval_symbol cfg ok (int (length (load_trades src))) (k, q) s))"
  then obtain q where w: "window_pnls cfg fl src k = Some q"
    and v: "view k (state_of (analyze cfg fl ok src s)) =
    view k (state_of (eval_symbol cfg ok (int (length (load_trades src))) (k, q) s))" by blast
  from body_commands [of k cfg ok "int (length (load_trades src))" q s]
  obtain X Y where
    "printed_for k (state_of (eval_symbol cfg ok (int (length (load_trades src))) (k, q) s)) = printed_for k s @ X"
    "written_for k (state_of (eval_symbol cfg ok (int (length (load_trades src))) (k, q) s)) = written_for k s @ Y"
    "\<forall>x\<in>set X. printed_cmd x = disable_cmd cfg k q \<or>
       (\<exists>w. enable_weight cfg (compute_confidence q) = Inr w \<and> printed_cmd x = enable_cmd k w)"
    "\<forall>y\<in>set Y. line_cmd y = disable_cmd cfg k q \<or>
       (\<exists>w. enable_weight cfg (compute_confidence q) = Inr w \<and> line_cmd y = enable_cmd k w)"
    by blast
  with view_eqD [OF v] w show ?thesis by auto
qed

lemma enable_weight_clamp:
  "min_weight cfg = Some lo \<Longrightarrow> max_weight cfg = Some hi \<Longrightarrow> lo \<le> hi \<Longrightarrow>
   enable_weight cfg conf = Inr (clamp (conf / 2) lo hi)"
  by (simp add: enable_weight_def clamp_def min_def max_def)

lemma enable_cmd_weight:
  "disable_cmd cfg k pnls \<noteq> ENABLE_ENGINE k w"
  "enable_cmd k v = ENABLE_ENGINE k w \<longleftrightarrow> w = py_round 3 v"
  by (auto simp: disable_cmd_def enable_cmd_def)

text \<open>
  Claim C9, as amended. The weight of an ENABLE is the confidence halved, brought into the
  interval from \<open>min_weight\<close> to \<open>max_weight\<close>, and the command shows it rounded to three
  decimal places: every ENABLE that a tick prints or writes about \<open>k\<close> carries that rounded
  weight of the PnL values of \<open>k\<close> in the window. With confidence 100 and weights between
  0.05 and 0.5 the weight is 0.5.
\<close>

theorem enable_weight_is_rounded_clamp:
  "(min_weight cfg = Some lo \<and> max_weight cfg = Some hi \<and> lo \<le> hi \<longrightarrow>
      enable_weight cfg conf = Inr (clamp (conf / 2) lo hi)) \<and>
   (\<forall>x\<in>set (new_printed k s (state_of (analyze cfg py_float append_ok src s))).
      \<forall>w. printed_cmd x = ENABLE_ENGINE k w \<longrightarrow>
        (\<exists>pnls weight. window_pnls cfg py_float src k = Some pnls \<and>
           enable_weight cfg (compute_confidence pnls) = Inr weight \<and> w = py_round 3 weight)) \<and>
   (\<forall>y\<in>set (new_written k s (state_of (analyze cfg py_float append_ok src s))).
      \<forall>w. line_cmd y = ENABLE_ENGINE k w \<longrightarrow>
        (\<exists>pnls weight. window_pnls cfg py_float src k = Some pnls \<and>
           enable_weight cfg (compute_confidence pnls) = Inr weight \<and> w = py_round 3 weight)) \<and>
   (min_weight cfg = Some (1 / 20) \<and> max_weight cfg = Some (1 / 2) \<longrightarrow>
      enable_weight cfg 100 = Inr (1 / 2) \<and> py_round 3 (1 / 2) = 1 / 2)"
proof -
  let ?s' = "state_of (analyze cfg py_float append_ok src s)"
  from tick_commands [of k cfg py_float append_ok src s]
  obtain X Y where
    p: "printed_for k ?s' = printed_for k s @ X" and w: "written_for k ?s' = written_for k s @ Y"
    and c: "X = [] \<and> Y = [] \<or>
      (\<exists>pnls. window_pnls cfg py_float src k = Some pnls \<and>
        (\<forall>x\<in>set X. printed_cmd x = disable_cmd cfg k pnls \<or>
           (\<exists>w. enable_weight cfg (compute_confidence pnls) = Inr w \<and> printed_cmd x = enable_cmd k w)) \<and>
        (\<forall>y\<in>set Y. line_cmd y = disable_cmd cfg k pnls \<or>
           (\<exists>w. enable_weight cfg (compute_confidence pnls) = Inr w \<and> line_cmd y = enable_cmd k w)))"
    by blast
  from p have np: "new_printed k s ?s' = X" by (simp add: new_printed_def)
  from w have nw: "new_written k s ?s' = Y" by (simp add: new_written_def)
  have a: "\<forall>x\<in>set X. \<forall>w. printed_cmd x = ENABLE_ENGINE k w \<longrightarrow>
        (\<exists>pnls weight. window_pnls cfg py_float src k = Some pnls \<and>
           enable_weight cfg (compute_confidence pnls) = Inr weight \<and> w = py_round 3 weight)"
    using c by (auto simp: enable_cmd_weight)
  have b: "\<forall>y\<in>set Y. \<forall>w. line_cmd y = ENABLE_ENGINE k w \<longrightarrow>
        (\<exists>pnls weight. window_pnls cfg py_float src k = Some pnls \<and>
           enable_weight cfg (compute_confidence pnls) = Inr weight \<and> w = py_round 3 weight)"
    using c by (auto simp: enable_cmd_weight)
  have d: "min_weight cfg = Some (1 / 20) \<and> max_weight cfg = Some (1 / 2) \<longrightarrow>
      enable_weight cfg 100 = Inr (1 / 2) \<and> py_round 3 (1 / 2) = 1 / 2"
    by (simp add: enable_weight_def py_round_def)
  have e: "min_weight cfg = Some lo \<and> max_weight cfg = Some hi \<and> lo \<le> hi \<longrightarrow>
      enable_weight cfg conf = Inr (clamp (conf / 2) lo hi)"
    by (simp add: enable_weight_clamp)
  from e a b d show ?thesis unfolding np nw by blast
qed

lemma steady_tick:
  "cmd_file (state_of (analyze cfg_free float_lit writable (Some steady) (init_state ''ACT''))) =
     [ACT_line (ENABLE_ENGINE (Some ''A'') (167 / 1000))]"
  by (simp add: io_defs cfg_free_def steady_def steady_stats py_round_def)

theorem enable_weight_is_rounded_clamp_witness:
  "min_weight cfg_free = Some (1 / 20) \<and> max_weight cfg_free = Some (1 / 2) \<and>
   enable_weight cfg_free 100 = Inr (clamp (100 / 2) (1 / 20) (1 / 2)) \<and>
   enable_weight cfg_free 100 = Inr (1 / 2) \<and>
   new_written (Some ''A'') (init_state ''ACT'')
     (state_of (analyze cfg_free float_lit writable (Some steady) (init_state ''ACT''))) =
     [ACT_line (ENABLE_ENGINE (Some ''A'') (167 / 1000))] \<and>
   (\<exists>pnls weight. window_pnls cfg_free float_lit (Some steady) (Some ''A'') = Some pnls \<and>
      enable_weight cfg_free (compute_confidence pnls) = Inr weight \<and>
      167 / 1000 = py_round 3 weight)"
proof -
  have h: "min_weight cfg_free = Some (1 / 20) \<and> max_weight cfg_free = Some (1 / 2)"
    by (simp add: cfg_free_def cfg_of_def)
  have l: "(1 / 20 :: real) \<le> 1 / 2" by simp
  have n: "new_written (Some ''A'') (init_state ''ACT'')
     (state_of (analyze cfg_free float_lit writable (Some steady) (init_state ''ACT''))) =
     [ACT_line (ENABLE_ENGINE (Some ''A'') (167 / 1000))]"
    by (simp add: new_written_def written_for_def steady_tick) (simp add: init_state_def)
  note t = enable_weight_is_rounded_clamp [of cfg_free "1 / 20" "1 / 2" 100 "Some ''A''" "init_state ''ACT''"
      float_lit writable "Some steady"]
  from t h l have c1: "enable_weight cfg_free 100 = Inr (clamp (100 / 2) (1 / 20) (1 / 2))"
    by blast
  from t h have c2: "enable_weight cfg_free 100 = Inr (1 / 2)" by blast
  from t have b: "\<forall>y\<in>set (new_written (Some ''A'') (init_state ''ACT'')
        (state_of (analyze cfg_free float_lit writable (Some steady) (init_state ''ACT'')))).
      \<forall>w. line_cmd y = ENABLE_ENGINE (Some ''A'') w \<longrightarrow>
        (\<exists>pnls weight. window_pnls cfg_free float_lit (Some steady) (Some ''A'') = Some pnls \<and>
           enable_weight cfg_free (compute_confidence pnls) = Inr weight \<and> w = py_round 3 weight)"
    by blast
  have mem: "ACT_line (ENABLE_ENGINE (Some ''A'') (167 / 1000)) \<in>
      set (new_written (Some ''A'') (init_state ''ACT'')
        (state_of (analyze cfg_free float_lit writable (Some steady) (init_state ''ACT''))))"
    unfolding n by simp
  have lc: "line_cmd (ACT_line (ENABLE_ENGINE (Some ''A'') (167 / 1000))) =
      ENABLE_ENGINE (Some ''A'') (167 / 1000)"
    by simp
  note c3 = b [rule_format, OF mem lc]
  from h c1 c2 n c3 show ?thesis by blast
qed

text \<open>
  Claim C9 as stated fails: for four trades at 1.0 and one at -2.0 the confidence is 1/3 and
  the clamped half of it is 1/6, while the command written carries 0.167.
\<close>

theorem emitted_weight_is_rounded:
  "cmd_file (state_of (analyze cfg_free float_lit writable (Some steady) (init_state ''ACT''))) =
     [ACT_line (ENABLE_ENGINE (Some ''A'') (167 / 1000))] \<and>
   window_pnls cfg_free float_lit (Some steady) (Some ''A'') = Some [1, 1, 1, 1, - 2] \<and>
   min_weight cfg_free = Some (1 / 20) \<and> max_weight cfg_free = Some (1 / 2) \<and>
   clamp (compute_confidence [1, 1, 1, 1, - 2] / 2) (1 / 20) (1 / 2) = 1 / 6"
proof -
  have w: "window_pnls cfg_free float_lit (Some steady) (Some ''A'') = Some [1, 1, 1, 1, - 2]"
    by (simp add: window_pnls_def load_trades_def last_window_def steady_def trade_def float_lit_def
        cfg_free_def cfg_of_def)
  have h: "min_weight cfg_free = Some (1 / 20)" "max_weight cfg_free = Some (1 / 2)"
    by (simp_all add: cfg_free_def cfg_of_def)
  have c: "clamp (compute_confidence [1, 1, 1, 1, - 2] / 2) (1 / 20) (1 / 2) = 1 / 6"
    by (simp add: steady_stats clamp_def)
  from steady_tick w h c show ?thesis by blast
qed


subsection \<open>One command per symbol and tick\<close>

lemma body_one_command:
  assumes "1 \<le> DISABLE_WINDOWS cfg" and "1 \<le> ENABLE_WINDOWS cfg"
  shows "\<exists>X Y c. printed_for k (state_of (eval_symbol cfg ok n (k, pnls) s)) = printed_for k s @ X \<and>
     written_for k (state_of (eval_symbol cfg ok n (k, pnls) s)) = written_for k s @ Y \<and>
     length X \<le> 1 \<and> length Y \<le> 1 \<and>
     (\<forall>x\<in>set X. printed_cmd x = c) \<and> (\<forall>y\<in>set Y. line_cmd y = c)"
proof -
  obtain fc' pc' la' st' pr' wr' r where
    g: "gate cfg ok (MODE s) n k pnls
       (fail_counts s k, pass_counts s k, last_action_trade s k, STATE s k,
        printed_for k s, written_for k s) = ((fc', pc', la', st', pr', wr'), r)"
    and v: "view k (state_of (eval_symbol cfg ok n (k, pnls) s)) = (fc', pc', la', st', pr', wr')"
    by (rule eval_symbol_gateE)
  from gate_one_command [OF g assms] viewD [OF v] show ?thesis by simp
qed

lemma tick_one_command:
  assumes "1 \<le> DISABLE_WINDOWS cfg" and "1 \<le> ENABLE_WINDOWS cfg"
  shows "\<exists>X Y c. printed_for k (state_of (analyze cfg fl ok src s)) = printed_for k s @ X \<and>
     written_for k (state_of (analyze cfg fl ok src s)) = written_for k s @ Y \<and>
     length X \<le> 1 \<and> length Y \<le> 1 \<and>
     (\<forall>x\<in>set X. printed_cmd x = c) \<and> (\<forall>y\<in>set Y. line_cmd y = c)"
  using analyze_view [of k cfg fl ok src s]
proof
  assume "view k (state_of (analyze cfg fl ok src s)) = view k s"
  then have "printed_for k (state_of (analyze cfg fl ok src s)) = printed_for k s @ [] \<and>
     written_for k (state_of (analyze cfg fl ok src s)) = written_for k s @ [] \<and>
     length ([] :: printed list) \<le> 1 \<and> length ([] :: log_line list) \<le> 1 \<and>
     (\<forall>x\<in>set []. printed_cmd x = undefined) \<and> (\<forall>y\<in>set []. line_cmd y = undefined)"
    by (simp add: view_def)
  then show ?thesis by blast
next
  assume "\<exists>q. window_pnls cfg fl src k = Some q \<and>
    view k (state_of (analyze cfg fl ok src s)) =
    view k (state_of (eval_symbol cfg ok (int (length (load_trades src))) (k, q) s))"
  then obtain q where v: "view k (state_of (analyze cfg fl ok src s)) =
    view k (state_of (eval_symbol cfg ok (int (length (load_trades src))) (k, q) s))" by blast
  from view_eqD [OF v] body_one_command [OF assms, of k ok "int (length (load_trades src))" q s]
  show ?thesis by simp
qed

text \<open>
  Claim C10. With both thresholds at least 1, a tick prints at most one line and writes at
  most one line about a symbol, and both carry the same command: never a DISABLE and an
  ENABLE of the same symbol in one tick.
\<close>

theorem at_most_one_command_per_tick:
  assumes "1 \<le> DISABLE_WINDOWS cfg" and "1 \<le> ENABLE_WINDOWS cfg"
  shows
    "printed_for k (state_of (analyze cfg py_float append_ok src s)) =
       printed_for k s @ new_printed k s (state_of (analyze cfg py_float append_ok src s)) \<and>
     written_for k (state_of (analyze cfg py_float append_ok src s)) =
       written_for k s @ new_written k s (state_of (analyze cfg py_float append_ok src s)) \<and>
     length (new_printed k s (state_of (analyze cfg py_float append_ok src s))) \<le> 1 \<and>
     length (new_written k s (state_of (analyze cfg py_float append_ok src s))) \<le> 1 \<and>
     (\<exists>c. (\<forall>x\<in>set (new_printed k s (state_of (analyze cfg py_float append_ok src s))).
              printed_cmd x = c) \<and>
          (\<forall>y\<in>set (new_written k s (state_of (analyze cfg py_float append_ok src s))).
              line_cmd y = c))"
proof -
  from tick_one_command [OF assms, of k py_float append_ok src s]
  obtain X Y c where
    p: "printed_for k (state_of (analyze cfg py_float append_ok src s)) = printed_for k s @ X"
    and w: "written_for k (state_of (analyze cfg py_float append_ok src s)) = written_for k s @ Y"
    and l: "length X \<le> 1" "length Y \<le> 1"
    and c: "\<forall>x\<in>set X. printed_cmd x = c" "\<forall>y\<in>set Y. line_cmd y = c"
    by blast
  from p have np: "new_printed k s (state_of (analyze cfg py_float append_ok src s)) = X"
    by (simp add: new_printed_def)
  from w have nw: "new_written k s (state_of (analyze cfg py_float append_ok src s)) = Y"
    by (simp add: new_written_def)
  from p w l c show ?thesis unfolding np nw by blast
qed

theorem at_most_one_command_per_tick_witness:
  "1 \<le> DISABLE_WINDOWS (cfg_of 1 1) \<and> 1 \<le> ENABLE_WINDOWS (cfg_of 1 1) \<and>
   printed_for (Some ''A'') (state_of (analyze (cfg_of 1 1) float_lit writable (Some winning) (init_state ''ACT'')))
     = [ACT_msg (ENABLE_ENGINE (Some ''A'') (1 / 2))] \<and>
   length (new_printed (Some ''A'') (init_state ''ACT'')
     (state_of (analyze (cfg_of 1 1) float_lit writable (Some winning) (init_state ''ACT'')))) \<le> 1 \<and>
   length (new_written (Some ''A'') (init_state ''ACT'')
     (state_of (analyze (cfg_of 1 1) float_lit writable (Some winning) (init_state ''ACT'')))) \<le> 1"
proof -
  have d: "1 \<le> DISABLE_WINDOWS (cfg_of 1 1)" and e: "1 \<le> ENABLE_WINDOWS (cfg_of 1 1)"
    by (simp_all add: cfg_of_def)
  have sq: "sqrt (16 / 25) = 4 / 5"
    by (rule real_sqrt_unique) (simp_all add: power2_eq_square)
  have p: "printed_for (Some ''A'')
      (state_of (analyze (cfg_of 1 1) float_lit writable (Some winning) (init_state ''ACT'')))
     = [ACT_msg (ENABLE_ENGINE (Some ''A'') (1 / 2))]"
    by (simp add: run_defs winning_def py_round_def printed_for_def enable_weight_def
        power2_eq_square sq)
  from at_most_one_command_per_tick [OF d e, of "Some ''A''" float_lit writable "Some winning"
      "init_state ''ACT''"] d e p
  show ?thesis by simp
qed

end
